theory Spec2Isabelle
  imports Main "HOL-Library.Word" "HOL-Library.Log_Nat" "HOL-Library.Monad_Syntax"
begin

section \<open>Double precision arithmetic\<close>

text \<open>
  The engine computes in C++ \<^verbatim>\<open>double\<close>. The model is IEEE 754 binary64 with the default
  rounding (to nearest, ties to even), every operation rounded on its own. A finite value
  \<open>Fin s m e\<close> stands for \<open>(-1)^s * m * 2^e\<close>; the values the operations produce have
  \<open>0 \<le> m < 2^53\<close> and \<open>-1074 \<le> e \<le> 971\<close>, with \<open>e = -1074\<close> whenever \<open>m < 2^52\<close>
  (zero and the subnormal numbers). \<open>Inf s\<close> is the infinity of sign \<open>s\<close>, and \<open>NaN\<close> stands
  for every not-a-number (payloads are not modelled).
\<close>

datatype double = Fin bool int int | Inf bool | NaN

text \<open>
  \<open>round_mant s m e sticky\<close> rounds \<open>(m + x) * 2^e\<close> to the nearest double, where
  \<open>0 \<le> x < 1\<close> and \<open>sticky\<close> says whether \<open>x\<close> is nonzero; \<open>m\<close> has at least 55 bits.
\<close>

definition round_mant :: "bool \<Rightarrow> int \<Rightarrow> int \<Rightarrow> bool \<Rightarrow> double" where
  "round_mant s m e sticky =
     (let e' = max (e + bitlen m - 53) (- 1074);
          sh = nat (e' - e);
          q = m div 2 ^ sh;
          r = m mod 2 ^ sh;
          half = 2 ^ (sh - 1);
          up = (half < r \<or> (r = half \<and> (sticky \<or> odd q)));
          m' = (if up then q + 1 else q);
          m'' = (if m' = 2 ^ 53 then 2 ^ 52 else m');
          e'' = (if m' = 2 ^ 53 then e' + 1 else e')
      in if 971 < e'' then Inf s else Fin s m'' e'')"

text \<open>\<open>round_ratio s p q e\<close> is the double nearest to \<open>(-1)^s * (p / q) * 2^e\<close>, for
  \<open>0 \<le> p\<close> and \<open>0 < q\<close>.\<close>

definition round_ratio :: "bool \<Rightarrow> int \<Rightarrow> int \<Rightarrow> int \<Rightarrow> double" where
  "round_ratio s p q e =
     (if p = 0 then Fin s 0 (- 1074)
      else let k = nat (max 0 (55 + bitlen q - bitlen p));
               n = p * 2 ^ k
           in round_mant s (n div q) (e - int k) (n mod q \<noteq> 0))"

text \<open>A decimal literal of the source, as the fraction \<open>p / q\<close>.\<close>

definition dlit :: "int \<Rightarrow> int \<Rightarrow> double" where
  "dlit p q = round_ratio False p q 0"

definition dzero :: double where
  "dzero = Fin False 0 (- 1074)"

text \<open>The finite doubles: zero, the subnormal and the normal numbers.\<close>

fun is_finite :: "double \<Rightarrow> bool" where
  "is_finite (Fin s m e) =
     (0 \<le> m \<and> m < 2 ^ 53 \<and> - 1074 \<le> e \<and> e \<le> 971 \<and> (m < 2 ^ 52 \<longrightarrow> e = - 1074))"
| "is_finite (Inf s) = False"
| "is_finite NaN = False"

text \<open>Neither an infinity nor a NaN.\<close>

fun is_fin :: "double \<Rightarrow> bool" where
  "is_fin (Fin s m e) = True"
| "is_fin (Inf s) = False"
| "is_fin NaN = False"

fun is_zero :: "double \<Rightarrow> bool" where
  "is_zero (Fin s m e) = (m = 0)"
| "is_zero (Inf s) = False"
| "is_zero NaN = False"

fun dneg :: "double \<Rightarrow> double" where
  "dneg (Fin s m e) = Fin (\<not> s) m e"
| "dneg (Inf s) = Inf (\<not> s)"
| "dneg NaN = NaN"

definition signed :: "bool \<Rightarrow> int \<Rightarrow> int" where
  "signed s m = (if s then - m else m)"

fun dadd :: "double \<Rightarrow> double \<Rightarrow> double" where
  "dadd (Fin s1 m1 e1) (Fin s2 m2 e2) =
     (if m1 = 0 \<and> m2 = 0 then Fin (s1 \<and> s2) 0 (- 1074)
      else if m1 = 0 then round_ratio s2 m2 1 e2
      else if m2 = 0 then round_ratio s1 m1 1 e1
      else let e0 = min e1 e2;
               c = signed s1 m1 * 2 ^ nat (e1 - e0) + signed s2 m2 * 2 ^ nat (e2 - e0)
           in if c = 0 then Fin False 0 (- 1074) else round_ratio (c < 0) \<bar>c\<bar> 1 e0)"
| "dadd (Fin s1 m1 e1) (Inf s2) = Inf s2"
| "dadd (Inf s1) (Fin s2 m2 e2) = Inf s1"
| "dadd (Inf s1) (Inf s2) = (if s1 = s2 then Inf s1 else NaN)"
| "dadd NaN y = NaN"
| "dadd x NaN = NaN"

definition dsub :: "double \<Rightarrow> double \<Rightarrow> double" where
  "dsub x y = dadd x (dneg y)"

fun dmul :: "double \<Rightarrow> double \<Rightarrow> double" where
  "dmul (Fin s1 m1 e1) (Fin s2 m2 e2) = round_ratio (s1 \<noteq> s2) (m1 * m2) 1 (e1 + e2)"
| "dmul (Fin s1 m1 e1) (Inf s2) = (if m1 = 0 then NaN else Inf (s1 \<noteq> s2))"
| "dmul (Inf s1) (Fin s2 m2 e2) = (if m2 = 0 then NaN else Inf (s1 \<noteq> s2))"
| "dmul (Inf s1) (Inf s2) = Inf (s1 \<noteq> s2)"
| "dmul NaN y = NaN"
| "dmul x NaN = NaN"

fun ddiv :: "double \<Rightarrow> double \<Rightarrow> double" where
  "ddiv (Fin s1 m1 e1) (Fin s2 m2 e2) =
     (if m2 = 0 then (if m1 = 0 then NaN else Inf (s1 \<noteq> s2))
      else round_ratio (s1 \<noteq> s2) m1 m2 (e1 - e2))"
| "ddiv (Fin s1 m1 e1) (Inf s2) = Fin (s1 \<noteq> s2) 0 (- 1074)"
| "ddiv (Inf s1) (Fin s2 m2 e2) = Inf (s1 \<noteq> s2)"
| "ddiv (Inf s1) (Inf s2) = NaN"
| "ddiv NaN y = NaN"
| "ddiv x NaN = NaN"

text \<open>\<^verbatim>\<open>std::fmod\<close>: the remainder of the truncated quotient, exact, with the sign of the
  first argument.\<close>

fun dfmod :: "double \<Rightarrow> double \<Rightarrow> double" where
  "dfmod (Fin s1 m1 e1) (Fin s2 m2 e2) =
     (if m2 = 0 then NaN
      else let e0 = min e1 e2;
               r = (m1 * 2 ^ nat (e1 - e0)) mod (m2 * 2 ^ nat (e2 - e0))
           in round_ratio s1 r 1 e0)"
| "dfmod (Fin s1 m1 e1) (Inf s2) = round_ratio s1 m1 1 e1"
| "dfmod (Inf s1) y = NaN"
| "dfmod NaN y = NaN"
| "dfmod x NaN = NaN"

text \<open>The comparison \<^verbatim>\<open><\<close>: false whenever an operand is a NaN; the two zeros are equal.\<close>

fun dlt :: "double \<Rightarrow> double \<Rightarrow> bool" where
  "dlt (Fin s1 m1 e1) (Fin s2 m2 e2) =
     (let e0 = min e1 e2
      in signed s1 m1 * 2 ^ nat (e1 - e0) < signed s2 m2 * 2 ^ nat (e2 - e0))"
| "dlt (Fin s1 m1 e1) (Inf s2) = (\<not> s2)"
| "dlt (Inf s1) (Fin s2 m2 e2) = s1"
| "dlt (Inf s1) (Inf s2) = (s1 \<and> \<not> s2)"
| "dlt NaN y = False"
| "dlt x NaN = False"

text \<open>The comparison \<^verbatim>\<open><=\<close>.\<close>

fun dle :: "double \<Rightarrow> double \<Rightarrow> bool" where
  "dle (Fin s1 m1 e1) (Fin s2 m2 e2) =
     (let e0 = min e1 e2
      in signed s1 m1 * 2 ^ nat (e1 - e0) \<le> signed s2 m2 * 2 ^ nat (e2 - e0))"
| "dle (Fin s1 m1 e1) (Inf s2) = (\<not> s2)"
| "dle (Inf s1) (Fin s2 m2 e2) = s1"
| "dle (Inf s1) (Inf s2) = (s1 \<or> \<not> s2)"
| "dle NaN y = False"
| "dle x NaN = False"

section \<open>Sizes and vectors\<close>

text \<open>\<^verbatim>\<open>std::size_t\<close> is an unsigned 64-bit integer; its arithmetic wraps around.\<close>

type_synonym size_t = "64 word"

text \<open>\<^verbatim>\<open>static_cast<double>\<close> of a size.\<close>

definition of_size_t :: "size_t \<Rightarrow> double" where
  "of_size_t n = round_ratio False (uint n) 1 0"

text \<open>
  A \<^verbatim>\<open>std::vector<double>\<close> is a list. \<^verbatim>\<open>operator[]\<close> out of range is undefined behaviour
  in C++; in the model it is the value \<open>None\<close>, which every caller propagates.
\<close>

definition vec_size :: "'a list \<Rightarrow> size_t" where
  "vec_size xs = of_nat (length xs)"

definition vec_at :: "'a list \<Rightarrow> size_t \<Rightarrow> 'a option" where
  "vec_at xs i = (if unat i < length xs then Some (xs ! unat i) else None)"

definition vec_set :: "'a list \<Rightarrow> size_t \<Rightarrow> 'a \<Rightarrow> 'a list option" where
  "vec_set xs i v = (if unat i < length xs then Some (xs[unat i := v]) else None)"

text \<open>\<^verbatim>\<open>for (std::size_t i = i0; i < n; ++i) body\<close>, threading the variables the body
  assigns.\<close>

function for_loop :: "size_t \<Rightarrow> size_t \<Rightarrow> (size_t \<Rightarrow> 's \<Rightarrow> 's option) \<Rightarrow> 's \<Rightarrow> 's option" where
  "for_loop i n body s =
     (if i < n
      then (case body i s of None \<Rightarrow> None | Some s' \<Rightarrow> for_loop (i + 1) n body s')
      else Some s)"
  by pat_completeness auto
termination
proof (relation "measure (\<lambda>(i, n, body, s). unat n - unat i)")
  show "wf (measure (\<lambda>(i :: size_t, n :: size_t, body :: size_t \<Rightarrow> 's \<Rightarrow> 's option, s :: 's). unat n - unat i))"
    by simp
next
  fix i n :: size_t and body :: "size_t \<Rightarrow> 's \<Rightarrow> 's option" and s x2 :: 's
  assume "i < n"
  then have "unat i < unat n"
    by (simp add: word_less_nat_alt)
  moreover from \<open>i < n\<close> have "1 + i \<noteq> 0"
    by (metis add.commute word_order.extremum_strict max_word_wrap)
  then have "unat (i + 1) = Suc (unat i)"
    by (simp add: unatSuc add.commute)
  ultimately show "((i + 1, n, body, x2), i, n, body, s) \<in> measure (\<lambda>(i, n, body, s). unat n - unat i)"
    by simp
qed

declare for_loop.simps [simp del]

section \<open>The simulation\<close>

record SimulationConfig =
  n_cups :: size_t
  radius :: double
  g :: double
  damping :: double
  leak_rate :: double
  inflow_rate :: double
  inertia :: double
  omega0 :: double
  t_start :: double
  t_end :: double
  n_frames :: size_t
  steps_per_frame :: size_t

record SimulationResult =
  times :: "double list"
  theta :: "double list"
  masses :: "double list"

datatype error = Invalid_argument string | Undefined_behaviour

definition PI :: double where
  "PI = dlit 314159265358979323846 (10 ^ 20)"

definition TWO_PI :: double where
  "TWO_PI = dmul (dlit 2 1) PI"

definition validate_config :: "SimulationConfig \<Rightarrow> error + unit" where
  "validate_config cfg =
     (if n_cups cfg < 1 then Inl (Invalid_argument ''n_cups must be positive'')
      else if n_frames cfg < 2 then Inl (Invalid_argument ''n_frames must be at least 2'')
      else if dle (t_end cfg) (t_start cfg)
        then Inl (Invalid_argument ''t_end must be greater than t_start'')
      else if steps_per_frame cfg < 1
        then Inl (Invalid_argument ''steps_per_frame must be positive'')
      else Inr ())"

text \<open>
  \<^verbatim>\<open>std::sin\<close> is a library function whose rounding the C++ standard leaves open: it is the
  parameter \<open>sn\<close> of the functions below.
\<close>

definition cup_angle :: "SimulationConfig \<Rightarrow> double \<Rightarrow> size_t \<Rightarrow> double" where
  "cup_angle cfg th i =
     (let cup_angle_step = ddiv TWO_PI (of_size_t (n_cups cfg))
      in dadd th (dmul cup_angle_step (of_size_t i)))"

definition wrap_phi :: "double \<Rightarrow> double" where
  "wrap_phi angle =
     (let phi = dfmod angle TWO_PI
      in if dlt phi dzero then dadd phi TWO_PI else phi)"

definition in_inflow :: "double \<Rightarrow> bool" where
  "in_inflow phi \<longleftrightarrow> dlt phi (dlit 1 10) \<or> dlt (dsub TWO_PI (dlit 1 10)) phi"

definition compute_derivatives ::
  "(double \<Rightarrow> double) \<Rightarrow> double list \<Rightarrow> SimulationConfig \<Rightarrow> double list option" where
  "compute_derivatives sn state cfg = do {
     let derivatives = replicate (unat (vec_size state)) dzero;
     th \<leftarrow> vec_at state 0;
     omega \<leftarrow> vec_at state 1;
     torque \<leftarrow> for_loop 0 (n_cups cfg) (\<lambda>i torque. do {
        let angle = cup_angle cfg th i;
        mass \<leftarrow> vec_at state (2 + i);
        Some (dadd torque (dmul (dmul (dmul mass (g cfg)) (radius cfg)) (sn angle)))
      }) dzero;
     derivatives \<leftarrow> vec_set derivatives 0 omega;
     derivatives \<leftarrow> vec_set derivatives 1
        (ddiv (dadd (dmul (dneg (damping cfg)) omega) torque) (inertia cfg));
     for_loop 0 (n_cups cfg) (\<lambda>i derivatives. do {
        let angle = cup_angle cfg th i;
        let phi = wrap_phi angle;
        mass \<leftarrow> vec_at state (2 + i);
        if in_inflow phi
        then vec_set derivatives (2 + i) (dsub (inflow_rate cfg) (dmul (leak_rate cfg) mass))
        else vec_set derivatives (2 + i) (dmul (dneg (leak_rate cfg)) mass)
      }) derivatives
   }"

text \<open>The three loops of \<^verbatim>\<open>rk4_step\<close> that fill \<^verbatim>\<open>temp\<close> have one shape:
  \<^verbatim>\<open>temp[i] = state[i] + c * k[i]\<close>.\<close>

definition predict ::
  "double list \<Rightarrow> double \<Rightarrow> double list \<Rightarrow> size_t \<Rightarrow> double list \<Rightarrow> double list option" where
  "predict state c k sz temp =
     for_loop 0 sz (\<lambda>i temp. do {
        x \<leftarrow> vec_at state i;
        d \<leftarrow> vec_at k i;
        vec_set temp i (dadd x (dmul c d))
      }) temp"

definition rk4_step ::
  "(double \<Rightarrow> double) \<Rightarrow> double list \<Rightarrow> double \<Rightarrow> SimulationConfig \<Rightarrow> double list option" where
  "rk4_step sn state dt cfg = do {
     let sz = vec_size state;
     let half_dt = dmul dt (dlit 1 2);
     let sixth_dt = ddiv dt (dlit 6 1);
     k1 \<leftarrow> compute_derivatives sn state cfg;
     let temp = replicate (unat sz) dzero;
     temp \<leftarrow> predict state half_dt k1 sz temp;
     k2 \<leftarrow> compute_derivatives sn temp cfg;
     temp \<leftarrow> predict state half_dt k2 sz temp;
     k3 \<leftarrow> compute_derivatives sn temp cfg;
     temp \<leftarrow> predict state dt k3 sz temp;
     k4 \<leftarrow> compute_derivatives sn temp cfg;
     for_loop 0 sz (\<lambda>i state. do {
        x \<leftarrow> vec_at state i;
        d1 \<leftarrow> vec_at k1 i;
        d2 \<leftarrow> vec_at k2 i;
        d3 \<leftarrow> vec_at k3 i;
        d4 \<leftarrow> vec_at k4 i;
        vec_set state i
          (dadd x (dmul sixth_dt
             (dadd (dadd (dadd d1 (dmul (dlit 2 1) d2)) (dmul (dlit 2 1) d3)) d4)))
      }) state
   }"

text \<open>The body of the frame loop up to the \<^verbatim>\<open>break\<close>: the sample of one frame.\<close>

definition record_frame ::
  "SimulationConfig \<Rightarrow> size_t \<Rightarrow> double list \<Rightarrow> double \<Rightarrow> SimulationResult \<Rightarrow> SimulationResult option" where
  "record_frame cfg frame state current_time result = do {
     ts \<leftarrow> vec_set (times result) frame current_time;
     th \<leftarrow> vec_at state 0;
     ths \<leftarrow> vec_set (theta result) frame th;
     ms \<leftarrow> for_loop 0 (n_cups cfg) (\<lambda>cup ms. do {
        m \<leftarrow> vec_at state (2 + cup);
        vec_set ms (cup * n_frames cfg + frame) m
      }) (masses result);
     Some (result\<lparr>times := ts, theta := ths, masses := ms\<rparr>)
   }"

text \<open>The inner loop: \<^verbatim>\<open>steps_per_frame\<close> sub-steps, each advancing the state and the
  running time.\<close>

definition advance ::
  "(double \<Rightarrow> double) \<Rightarrow> SimulationConfig \<Rightarrow> double \<Rightarrow> double list \<times> double
     \<Rightarrow> (double list \<times> double) option" where
  "advance sn cfg sub_dt sc =
     for_loop 0 (steps_per_frame cfg) (\<lambda>step (state, current_time). do {
        state \<leftarrow> rk4_step sn state sub_dt cfg;
        Some (state, dadd current_time sub_dt)
      }) sc"

function frame_loop ::
  "(double \<Rightarrow> double) \<Rightarrow> SimulationConfig \<Rightarrow> double \<Rightarrow> size_t
     \<Rightarrow> double list \<times> double \<Rightarrow> SimulationResult \<Rightarrow> SimulationResult option" where
  "frame_loop sn cfg sub_dt frame sc result =
     (if frame < n_frames cfg
      then (case record_frame cfg frame (fst sc) (snd sc) result of
              None \<Rightarrow> None
            | Some result' \<Rightarrow>
                if frame + 1 = n_frames cfg then Some result'
                else (case advance sn cfg sub_dt sc of
                        None \<Rightarrow> None
                      | Some sc' \<Rightarrow> frame_loop sn cfg sub_dt (frame + 1) sc' result'))
      else Some result)"
  by pat_completeness auto
termination
proof (relation "measure (\<lambda>(sn, cfg, sub_dt, frame, sc, result). unat (n_frames cfg) - unat frame)")
  show "wf (measure (\<lambda>(sn :: double \<Rightarrow> double, cfg, sub_dt :: double, frame :: size_t,
      sc :: double list \<times> double, result :: SimulationResult). unat (n_frames cfg) - unat frame))"
    by simp
next
  fix sn :: "double \<Rightarrow> double" and cfg :: SimulationConfig and sub_dt :: double
    and frame :: size_t and sc x2a :: "double list \<times> double" and result x2 :: SimulationResult
  assume "frame < n_frames cfg"
  then have "unat frame < unat (n_frames cfg)"
    by (simp add: word_less_nat_alt)
  moreover from \<open>frame < n_frames cfg\<close> have "1 + frame \<noteq> 0"
    by (metis add.commute word_order.extremum_strict max_word_wrap)
  then have "unat (frame + 1) = Suc (unat frame)"
    by (simp add: unatSuc add.commute)
  ultimately show "((sn, cfg, sub_dt, frame + 1, x2a, x2), sn, cfg, sub_dt, frame, sc, result)
      \<in> measure (\<lambda>(sn, cfg, sub_dt, frame, sc, result). unat (n_frames cfg) - unat frame)"
    by simp
qed

declare frame_loop.simps [simp del]

definition frame_dt_of :: "SimulationConfig \<Rightarrow> double" where
  "frame_dt_of cfg =
     (let total_time = dsub (t_end cfg) (t_start cfg)
      in ddiv total_time (of_size_t (n_frames cfg - 1)))"

definition sub_dt_of :: "SimulationConfig \<Rightarrow> double" where
  "sub_dt_of cfg = ddiv (frame_dt_of cfg) (of_size_t (steps_per_frame cfg))"

definition initial_state :: "SimulationConfig \<Rightarrow> double list option" where
  "initial_state cfg =
     (let state_size = n_cups cfg + 2;
          state = replicate (unat state_size) dzero
      in vec_set state 1 (omega0 cfg))"

definition initial_result :: "SimulationConfig \<Rightarrow> SimulationResult" where
  "initial_result cfg =
     \<lparr>times = replicate (unat (n_frames cfg)) dzero,
      theta = replicate (unat (n_frames cfg)) dzero,
      masses = replicate (unat (n_cups cfg * n_frames cfg)) dzero\<rparr>"

definition simulate :: "(double \<Rightarrow> double) \<Rightarrow> SimulationConfig \<Rightarrow> error + SimulationResult" where
  "simulate sn cfg =
     (case validate_config cfg of
        Inl err \<Rightarrow> Inl err
      | Inr _ \<Rightarrow>
          (case initial_state cfg of
             None \<Rightarrow> Inl Undefined_behaviour
           | Some state \<Rightarrow>
               (case frame_loop sn cfg (sub_dt_of cfg) 0 (state, t_start cfg) (initial_result cfg) of
                  None \<Rightarrow> Inl Undefined_behaviour
                | Some result \<Rightarrow> Inr result)))"

section \<open>The specification's formulas\<close>

text \<open>
  The definitions of this section follow the words of the specification, not the loops of
  the source; the theorems compare them with the functions above. A sum of doubles is
  taken from \<open>0.0\<close> in the order of the cups, since double addition is not associative.
\<close>

definition cup_torque :: "(double \<Rightarrow> double) \<Rightarrow> SimulationConfig \<Rightarrow> double list \<Rightarrow> nat \<Rightarrow> double" where
  "cup_torque sn cfg st i =
     dmul (dmul (dmul (st ! (2 + i)) (g cfg)) (radius cfg)) (sn (cup_angle cfg (st ! 0) (of_nat i)))"

definition net_torque :: "(double \<Rightarrow> double) \<Rightarrow> SimulationConfig \<Rightarrow> double list \<Rightarrow> double" where
  "net_torque sn cfg st =
     foldl (\<lambda>t i. dadd t (cup_torque sn cfg st i)) dzero [0..<unat (n_cups cfg)]"

definition mass_rate :: "SimulationConfig \<Rightarrow> double list \<Rightarrow> nat \<Rightarrow> double" where
  "mass_rate cfg st i =
     (if in_inflow (wrap_phi (cup_angle cfg (st ! 0) (of_nat i)))
      then dsub (inflow_rate cfg) (dmul (leak_rate cfg) (st ! (2 + i)))
      else dmul (dneg (leak_rate cfg)) (st ! (2 + i)))"

definition omega_rate :: "(double \<Rightarrow> double) \<Rightarrow> SimulationConfig \<Rightarrow> double list \<Rightarrow> double" where
  "omega_rate sn cfg st =
     ddiv (dadd (dmul (dneg (damping cfg)) (st ! 1)) (net_torque sn cfg st)) (inertia cfg)"

definition derivative_spec :: "(double \<Rightarrow> double) \<Rightarrow> SimulationConfig \<Rightarrow> double list \<Rightarrow> double list" where
  "derivative_spec sn cfg st =
     st ! 1 # omega_rate sn cfg st # map (mass_rate cfg st) [0..<unat (n_cups cfg)]"

definition axpy :: "double list \<Rightarrow> double \<Rightarrow> double list \<Rightarrow> double list" where
  "axpy st c k = map (\<lambda>i. dadd (st ! i) (dmul c (k ! i))) [0..<length st]"

definition rk4_combine ::
  "double list \<Rightarrow> double \<Rightarrow> double list \<Rightarrow> double list \<Rightarrow> double list \<Rightarrow> double list \<Rightarrow> double list" where
  "rk4_combine st dt k1 k2 k3 k4 =
     map (\<lambda>i. dadd (st ! i) (dmul (ddiv dt (dlit 6 1))
            (dadd (dadd (dadd (k1 ! i) (dmul (dlit 2 1) (k2 ! i))) (dmul (dlit 2 1) (k3 ! i))) (k4 ! i))))
       [0..<length st]"

definition rk4_spec :: "(double \<Rightarrow> double) \<Rightarrow> SimulationConfig \<Rightarrow> double \<Rightarrow> double list \<Rightarrow> double list" where
  "rk4_spec sn cfg dt st =
     (let f = derivative_spec sn cfg;
          k1 = f st;
          k2 = f (axpy st (dmul dt (dlit 1 2)) k1);
          k3 = f (axpy st (dmul dt (dlit 1 2)) k2);
          k4 = f (axpy st dt k3)
      in rk4_combine st dt k1 k2 k3 k4)"

text \<open>The state after \<open>j\<close> sub-steps, and the time after \<open>j\<close> additions of the sub-step size.\<close>

fun run_steps ::
  "(double \<Rightarrow> double) \<Rightarrow> SimulationConfig \<Rightarrow> double \<Rightarrow> nat \<Rightarrow> double list \<Rightarrow> double list option" where
  "run_steps sn cfg dt 0 st = Some st"
| "run_steps sn cfg dt (Suc j) st =
     (case rk4_step sn st dt cfg of None \<Rightarrow> None | Some st' \<Rightarrow> run_steps sn cfg dt j st')"

definition state_at :: "(double \<Rightarrow> double) \<Rightarrow> SimulationConfig \<Rightarrow> nat \<Rightarrow> double list option" where
  "state_at sn cfg k =
     (case initial_state cfg of
        None \<Rightarrow> None
      | Some st \<Rightarrow> run_steps sn cfg (sub_dt_of cfg) (k * unat (steps_per_frame cfg)) st)"

definition time_at :: "SimulationConfig \<Rightarrow> nat \<Rightarrow> double" where
  "time_at cfg k =
     ((\<lambda>t. dadd t (sub_dt_of cfg)) ^^ (k * unat (steps_per_frame cfg))) (t_start cfg)"

text \<open>The condition of validation, in the specification's words.\<close>

definition invalid_configuration :: "SimulationConfig \<Rightarrow> bool" where
  "invalid_configuration cfg \<longleftrightarrow>
     n_cups cfg < 1 \<or> n_frames cfg < 2 \<or> dle (t_end cfg) (t_start cfg) \<or> steps_per_frame cfg < 1"

text \<open>The number of elements of the mass table is a \<^verbatim>\<open>std::size_t\<close>.\<close>

definition sizes_fit :: "SimulationConfig \<Rightarrow> bool" where
  "sizes_fit cfg \<longleftrightarrow> unat (n_cups cfg) * unat (n_frames cfg) < 2 ^ 64"

section \<open>The trajectory in closed form\<close>

text \<open>The initial state, the state at frame \<open>k\<close> and the three series, written with the
  formulas of the specification.\<close>

definition init_spec :: "SimulationConfig \<Rightarrow> double list" where
  "init_spec cfg = dzero # omega0 cfg # replicate (unat (n_cups cfg)) dzero"

definition state_spec :: "(double \<Rightarrow> double) \<Rightarrow> SimulationConfig \<Rightarrow> nat \<Rightarrow> double list" where
  "state_spec sn cfg k =
     ((rk4_spec sn cfg (sub_dt_of cfg)) ^^ (k * unat (steps_per_frame cfg))) (init_spec cfg)"

definition simulate_spec :: "(double \<Rightarrow> double) \<Rightarrow> SimulationConfig \<Rightarrow> SimulationResult" where
  "simulate_spec sn cfg =
     \<lparr>times = map (time_at cfg) [0..<unat (n_frames cfg)],
      theta = map (\<lambda>k. state_spec sn cfg k ! 0) [0..<unat (n_frames cfg)],
      masses = map (\<lambda>idx. state_spec sn cfg (idx mod unat (n_frames cfg))
                            ! (2 + idx div unat (n_frames cfg)))
                 [0..<unat (n_cups cfg) * unat (n_frames cfg)]\<rparr>"

section \<open>Rotation without torque\<close>

text \<open>
  With no damping, no inflow, no leak and empty cups the wheel turns freely. The state is
  then \<open>[theta, omega, 0, ..., 0]\<close>, and a sub-step adds one fixed increment to \<open>theta\<close>. The
  sine of a cup angle is multiplied by a zero mass; the product is a zero as long as the
  angle, and so its sine, is finite.
\<close>

definition finite_sine :: "(double \<Rightarrow> double) \<Rightarrow> bool" where
  "finite_sine sn \<longleftrightarrow> (\<forall>x. is_finite x \<longrightarrow> is_finite (sn x))"

definition no_torque :: "SimulationConfig \<Rightarrow> bool" where
  "no_torque cfg \<longleftrightarrow>
     is_zero (damping cfg) \<and> is_zero (leak_rate cfg) \<and> is_zero (inflow_rate cfg)
     \<and> is_fin (g cfg) \<and> is_fin (radius cfg)
     \<and> inertia cfg \<noteq> NaN \<and> \<not> is_zero (inertia cfg)"

definition rot_state :: "SimulationConfig \<Rightarrow> double \<Rightarrow> double \<Rightarrow> double list" where
  "rot_state cfg th w = th # w # replicate (unat (n_cups cfg)) dzero"

definition rot_increment :: "double \<Rightarrow> double \<Rightarrow> double" where
  "rot_increment dt w =
     dmul (ddiv dt (dlit 6 1)) (dadd (dadd (dadd w (dmul (dlit 2 1) w)) (dmul (dlit 2 1) w)) w)"

definition angles_finite :: "SimulationConfig \<Rightarrow> double \<Rightarrow> bool" where
  "angles_finite cfg th \<longleftrightarrow>
     list_all (\<lambda>i. is_finite (cup_angle cfg th (of_nat i))) [0..<unat (n_cups cfg)]"

text \<open>The cup angles at the four stages of a sub-step from \<open>theta = th\<close>, \<open>omega = w\<close>.\<close>

definition stage_angles_finite :: "SimulationConfig \<Rightarrow> double \<Rightarrow> double \<Rightarrow> double \<Rightarrow> bool" where
  "stage_angles_finite cfg dt th w \<longleftrightarrow>
     angles_finite cfg th
     \<and> angles_finite cfg (dadd th (dmul (dmul dt (dlit 1 2)) w))
     \<and> angles_finite cfg (dadd th (dmul dt w))"

definition free_theta :: "SimulationConfig \<Rightarrow> nat \<Rightarrow> double" where
  "free_theta cfg j =
     ((\<lambda>th. dadd th (rot_increment (sub_dt_of cfg) (omega0 cfg))) ^^ j) dzero"

definition free_run_finite :: "SimulationConfig \<Rightarrow> nat \<Rightarrow> bool" where
  "free_run_finite cfg n \<longleftrightarrow>
     list_all (\<lambda>j. stage_angles_finite cfg (sub_dt_of cfg) (free_theta cfg j) (omega0 cfg)) [0..<n]"

section \<open>Inputs of the examples\<close>

text \<open>
  A stand-in for \<^verbatim>\<open>std::sin\<close> in the closed examples below. It agrees with \<^verbatim>\<open>std::sin\<close> at
  the zeros (\<open>sin(\<plusminus>0) = \<plusminus>0\<close>), at the infinities and at NaN (both NaN); at any other finite
  argument it returns a zero, which is not the sine. The examples use it where the sine is
  taken at zero or is multiplied by a zero mass.
\<close>

definition sin_stub :: "double \<Rightarrow> double" where
  "sin_stub x = (case x of Fin s m e \<Rightarrow> Fin s 0 (- 1074) | Inf s \<Rightarrow> NaN | NaN \<Rightarrow> NaN)"

text \<open>The configuration of the unit tests (\<^verbatim>\<open>make_valid_config\<close> in
  \<^verbatim>\<open>tests/wheely_simulation_test.cpp\<close>).\<close>

definition make_valid_config :: SimulationConfig where
  "make_valid_config =
     \<lparr>n_cups = 2, radius = dlit 1 1, g = dlit 981 100, damping = dlit 5 100,
      leak_rate = dlit 2 100, inflow_rate = dlit 5 10, inertia = dlit 15 10, omega0 = dzero,
      t_start = dzero, t_end = dlit 1 1, n_frames = 5, steps_per_frame = 2\<rparr>"

text \<open>The configuration of the test \<^verbatim>\<open>ComputesTorqueAndAngularAcceleration\<close>.\<close>

definition torque_test_config :: SimulationConfig where
  "torque_test_config =
     make_valid_config\<lparr>n_cups := 1, inertia := dlit 2 1, damping := dlit 5 10,
       leak_rate := dlit 1 10, inflow_rate := dlit 1 1\<rparr>"

text \<open>No inflow and no leak, the other values as in the unit tests.\<close>

definition no_water_config :: SimulationConfig where
  "no_water_config = make_valid_config\<lparr>leak_rate := dzero, inflow_rate := dzero\<rparr>"

text \<open>Finite times whose difference is not: with \<open>t_start = -2^1023\<close> and
  \<open>t_end = 2^1023\<close> (about \<open>8.99e307\<close>), \<open>t_end - t_start\<close> overflows to infinity.\<close>

definition overflow_time_config :: SimulationConfig where
  "overflow_time_config =
     make_valid_config\<lparr>n_cups := 1, leak_rate := dzero, inflow_rate := dzero,
       t_start := Fin True 4503599627370496 971, t_end := Fin False 4503599627370496 971,
       n_frames := 2, steps_per_frame := 1\<rparr>"

text \<open>The largest cup counts pass validation: \<open>n_cups = 2^64 - 2\<close>, for which
  \<open>n_cups + 2\<close> wraps around to \<open>0\<close>.\<close>

definition huge_cups_config :: SimulationConfig where
  "huge_cups_config = make_valid_config\<lparr>n_cups := 18446744073709551614\<rparr>"

text \<open>The configuration of the tests \<^verbatim>\<open>AdvancesAngleWithConstantAngularVelocity\<close> and
  \<^verbatim>\<open>ProducesExpectedFramesAndAngles\<close>.\<close>

definition rk4_test_config :: SimulationConfig where
  "rk4_test_config =
     make_valid_config\<lparr>n_cups := 1, damping := dzero, leak_rate := dzero, inflow_rate := dzero,
       g := dlit 981 100, radius := dlit 1 1, inertia := dlit 1 1\<rparr>"

definition frames_test_config :: SimulationConfig where
  "frames_test_config =
     make_valid_config\<lparr>n_cups := 1, steps_per_frame := 5, n_frames := 3, omega0 := dlit 1 1,
       damping := dzero, inertia := dlit 1 1, leak_rate := dzero, inflow_rate := dzero,
       t_end := dlit 1 1\<rparr>"

text \<open>A wheel without inertia (the value a \<^verbatim>\<open>SimulationConfig\<close> is constructed with), no
  gravity, one frame step of one sub-step.\<close>

definition zero_inertia_config :: SimulationConfig where
  "zero_inertia_config =
     frames_test_config\<lparr>g := dzero, inertia := dzero, n_frames := 2, steps_per_frame := 1\<rparr>"

text \<open>The end-to-end example of the specification: the configuration of the test
  \<^verbatim>\<open>ProducesExpectedFramesAndAngles\<close> without gravity.\<close>

definition free_wheel_config :: SimulationConfig where
  "free_wheel_config = frames_test_config\<lparr>g := dzero\<rparr>"

section \<open>Vectors and loops\<close>

lemma unat_plus_one: "i < n \<Longrightarrow> unat (i + 1) = Suc (unat i)" for i n :: size_t
proof -
  assume "i < n"
  then have "1 + i \<noteq> 0"
    by (metis add.commute word_order.extremum_strict max_word_wrap)
  then show ?thesis
    by (simp add: unatSuc add.commute)
qed

lemma vec_at_Some [simp]: "unat i < length xs \<Longrightarrow> vec_at xs i = Some (xs ! unat i)"
  by (simp add: vec_at_def)

lemma vec_at_None [simp]: "\<not> unat i < length xs \<Longrightarrow> vec_at xs i = None"
  by (simp add: vec_at_def)

lemma vec_set_Some [simp]: "unat i < length xs \<Longrightarrow> vec_set xs i v = Some (xs[unat i := v])"
  by (simp add: vec_set_def)

lemma vec_set_None [simp]: "\<not> unat i < length xs \<Longrightarrow> vec_set xs i v = None"
  by (simp add: vec_set_def)

lemma for_loop_done: "\<not> i < n \<Longrightarrow> for_loop i n body s = Some s"
  by (simp add: for_loop.simps)

lemma for_loop_step:
  "i < n \<Longrightarrow> for_loop i n body s = (case body i s of None \<Rightarrow> None | Some s' \<Rightarrow> for_loop (i + 1) n body s')"
  by (subst for_loop.simps) simp

lemma for_loop_rule:
  assumes "I (unat i) s" and "i \<le> n"
    and "\<And>j s. unat i \<le> j \<Longrightarrow> j < unat n \<Longrightarrow> I j s \<Longrightarrow> \<exists>s'. body (of_nat j) s = Some s' \<and> I (Suc j) s'"
  shows "\<exists>s'. for_loop i n body s = Some s' \<and> I (unat n) s'"
  using assms
proof (induction i n body s rule: for_loop.induct)
  case (1 i n body s)
  show ?case
  proof (cases "i < n")
    case False
    with "1.prems"(2) have "i = n" by simp
    with "1.prems"(1) show ?thesis by (simp add: for_loop_done)
  next
    case True
    then have lt: "unat i < unat n" by (simp add: word_less_nat_alt)
    from "1.prems"(3)[OF le_refl lt "1.prems"(1)]
    obtain s' where b: "body i s = Some s'" and I': "I (Suc (unat i)) s'"
      by auto
    have suc: "unat (i + 1) = Suc (unat i)" using True by (rule unat_plus_one)
    have le: "i + 1 \<le> n" using lt suc by (simp add: word_le_nat_alt)
    have "\<exists>s''. for_loop (i + 1) n body s' = Some s'' \<and> I (unat n) s''"
    proof (rule "1.IH"[OF True b])
      show "I (unat (i + 1)) s'" using I' suc by simp
      show "i + 1 \<le> n" by (rule le)
      fix j t assume "unat (i + 1) \<le> j" "j < unat n" "I j t"
      then show "\<exists>s'. body (word_of_nat j) t = Some s' \<and> I (Suc j) s'"
        using "1.prems"(3)[of j t] suc by simp
    qed
    then show ?thesis using True b by (simp add: for_loop_step)
  qed
qed

lemma for_loop_SomeD:
  assumes "for_loop i n body s = Some s'" and "I (unat i) s" and "i \<le> n"
    and "\<And>j s t. unat i \<le> j \<Longrightarrow> j < unat n \<Longrightarrow> I j s \<Longrightarrow> body (of_nat j) s = Some t \<Longrightarrow> I (Suc j) t"
  shows "I (unat n) s'"
  using assms
proof (induction i n body s rule: for_loop.induct)
  case (1 i n body s)
  show ?case
  proof (cases "i < n")
    case False
    with "1.prems"(3) have "i = n" by simp
    with "1.prems"(1,2) show ?thesis by (simp add: for_loop_done)
  next
    case True
    then have lt: "unat i < unat n" by (simp add: word_less_nat_alt)
    from "1.prems"(1) True obtain t where b: "body i s = Some t"
      and rest: "for_loop (i + 1) n body t = Some s'"
      by (auto simp: for_loop_step split: option.splits)
    have suc: "unat (i + 1) = Suc (unat i)" using True by (rule unat_plus_one)
    have le: "i + 1 \<le> n" using lt suc by (simp add: word_le_nat_alt)
    have I': "I (Suc (unat i)) t"
      using "1.prems"(4)[OF le_refl lt "1.prems"(2)] b by simp
    show ?thesis
    proof (rule "1.IH"[OF True b rest])
      show "I (unat (i + 1)) t" using I' suc by simp
      show "i + 1 \<le> n" by (rule le)
      fix j u v assume "unat (i + 1) \<le> j" "j < unat n" "I j u" "body (word_of_nat j) u = Some v"
      then show "I (Suc j) v"
        using "1.prems"(4)[of j u v] suc by simp
    qed
  qed
qed


lemma length_derivative_spec [simp]: "length (derivative_spec sn cfg st) = unat (n_cups cfg) + 2"
  by (simp add: derivative_spec_def)

lemma length_axpy [simp]: "length (axpy st c k) = length st"
  by (simp add: axpy_def)

lemma length_rk4_combine [simp]: "length (rk4_combine st dt k1 k2 k3 k4) = length st"
  by (simp add: rk4_combine_def)

lemma length_rk4_spec [simp]: "length (rk4_spec sn cfg dt st) = length st"
  by (simp add: rk4_spec_def Let_def)

lemma unat_two_plus:
  assumes "j < unat (n :: size_t)" and "unat n + 2 < 2 ^ 64"
  shows "unat (2 + of_nat j :: size_t) = 2 + j"
proof -
  have "unat (of_nat j :: size_t) = j"
    using assms by (simp add: unat_of_nat)
  moreover have "unat (2 :: size_t) = 2" by simp
  ultimately show ?thesis
    using assms by (simp add: unat_word_ariths)
qed

lemma torque_loop:
  assumes len: "length st = unat (n_cups cfg) + 2" and fit: "length st < 2 ^ 64"
  shows "for_loop 0 (n_cups cfg) (\<lambda>i torque. do {
        let angle = cup_angle cfg (st ! 0) i;
        mass \<leftarrow> vec_at st (2 + i);
        Some (dadd torque (dmul (dmul (dmul mass (g cfg)) (radius cfg)) (sn angle)))
      }) dzero = Some (net_torque sn cfg st)"
proof -
  let ?body = "\<lambda>i torque. do {
        let angle = cup_angle cfg (st ! 0) i;
        mass \<leftarrow> vec_at st (2 + i);
        Some (dadd torque (dmul (dmul (dmul mass (g cfg)) (radius cfg)) (sn angle)))
      }"
  let ?I = "\<lambda>j t. t = foldl (\<lambda>t i. dadd t (cup_torque sn cfg st i)) dzero [0..<j]"
  have "\<exists>t. for_loop 0 (n_cups cfg) ?body dzero = Some t \<and> ?I (unat (n_cups cfg)) t"
  proof (rule for_loop_rule)
    show "?I (unat (0 :: size_t)) dzero" by simp
    show "(0 :: size_t) \<le> n_cups cfg" by simp
    fix j t assume j: "j < unat (n_cups cfg)" and I: "?I j t"
    have u: "unat (2 + of_nat j :: size_t) = 2 + j"
      using j len fit by (intro unat_two_plus[of j "n_cups cfg"]) simp_all
    show "\<exists>s'. ?body (of_nat j) t = Some s' \<and> ?I (Suc j) s'"
      using j len I by (simp add: u cup_torque_def)
  qed
  then show ?thesis by (simp add: net_torque_def)
qed


lemma mass_loop:
  assumes len: "length st = unat (n_cups cfg) + 2" and fit: "length st < 2 ^ 64"
    and d0: "length d0 = length st"
  shows "for_loop 0 (n_cups cfg) (\<lambda>i derivatives. do {
        let angle = cup_angle cfg (st ! 0) i;
        let phi = wrap_phi angle;
        mass \<leftarrow> vec_at st (2 + i);
        if in_inflow phi
        then vec_set derivatives (2 + i) (dsub (inflow_rate cfg) (dmul (leak_rate cfg) mass))
        else vec_set derivatives (2 + i) (dmul (dneg (leak_rate cfg)) mass)
      }) d0 = Some (d0 ! 0 # d0 ! 1 # map (mass_rate cfg st) [0..<unat (n_cups cfg)])"
proof -
  let ?body = "\<lambda>i derivatives. do {
        let angle = cup_angle cfg (st ! 0) i;
        let phi = wrap_phi angle;
        mass \<leftarrow> vec_at st (2 + i);
        if in_inflow phi
        then vec_set derivatives (2 + i) (dsub (inflow_rate cfg) (dmul (leak_rate cfg) mass))
        else vec_set derivatives (2 + i) (dmul (dneg (leak_rate cfg)) mass)
      }"
  let ?I = "\<lambda>j d. length d = length st \<and> d ! 0 = d0 ! 0 \<and> d ! 1 = d0 ! 1
      \<and> (\<forall>i<j. d ! (2 + i) = mass_rate cfg st i)"
  have "\<exists>d. for_loop 0 (n_cups cfg) ?body d0 = Some d \<and> ?I (unat (n_cups cfg)) d"
  proof (rule for_loop_rule)
    show "?I (unat (0 :: size_t)) d0" using d0 by simp
    show "(0 :: size_t) \<le> n_cups cfg" by simp
    fix j d assume j: "j < unat (n_cups cfg)" and I: "?I j d"
    have u: "unat (2 + of_nat j :: size_t) = 2 + j"
      using j len fit by (intro unat_two_plus[of j "n_cups cfg"]) simp_all
    have upd: "(d[2 + j := mass_rate cfg st j]) ! (2 + i) = mass_rate cfg st i" if "i < Suc j" for i
    proof (cases "i = j")
      case True
      then show ?thesis using I j len by simp
    next
      case False
      with that have "i < j" by simp
      with I show ?thesis by simp
    qed
    have body: "?body (of_nat j) d = Some (d[2 + j := mass_rate cfg st j])"
      using j len I by (simp add: u mass_rate_def)
    have "?I (Suc j) (d[2 + j := mass_rate cfg st j])"
      using I upd by simp
    with body show "\<exists>s'. ?body (of_nat j) d = Some s' \<and> ?I (Suc j) s'"
      by blast
  qed
  then obtain d where d: "for_loop 0 (n_cups cfg) ?body d0 = Some d" and I: "?I (unat (n_cups cfg)) d"
    by blast
  have "d = d0 ! 0 # d0 ! 1 # map (mass_rate cfg st) [0..<unat (n_cups cfg)]"
  proof (rule nth_equalityI)
    show "length d = length (d0 ! 0 # d0 ! 1 # map (mass_rate cfg st) [0..<unat (n_cups cfg)])"
      using I len by simp
    fix i assume "i < length d"
    then have i: "i < unat (n_cups cfg) + 2" using I len by simp
    consider "i = 0" | "i = 1" | "2 \<le> i" by linarith
    then show "d ! i = (d0 ! 0 # d0 ! 1 # map (mass_rate cfg st) [0..<unat (n_cups cfg)]) ! i"
    proof cases
      case 1 then show ?thesis using I by simp
    next
      case 2 then show ?thesis using I by simp
    next
      case 3
      then obtain i' where i': "i = 2 + i'" using le_Suc_ex by blast
      with i have "i' < unat (n_cups cfg)" by simp
      with I i' show ?thesis by simp
    qed
  qed
  with d show ?thesis by simp
qed

lemma unat_vec_size: "length xs < 2 ^ 64 \<Longrightarrow> unat (vec_size xs) = length xs"
  by (simp add: vec_size_def unat_of_nat)

lemma compute_derivatives_eq:
  assumes len: "length st = unat (n_cups cfg) + 2" and fit: "length st < 2 ^ 64"
  shows "compute_derivatives sn st cfg = Some (derivative_spec sn cfg st)"
proof -
  have z: "vec_at st 0 = Some (st ! 0)" and o: "vec_at st 1 = Some (st ! 1)"
    using len by simp_all
  define d0 where "d0 = (replicate (unat (vec_size st)) dzero)[0 := st ! 1, 1 := omega_rate sn cfg st]"
  have s0: "vec_set (replicate (unat (vec_size st)) dzero) 0 (st ! 1)
      = Some ((replicate (unat (vec_size st)) dzero)[0 := st ! 1])"
    using len fit by (simp add: unat_vec_size)
  have s1: "vec_set ((replicate (unat (vec_size st)) dzero)[0 := st ! 1]) 1
        (ddiv (dadd (dmul (dneg (damping cfg)) (st ! 1)) (net_torque sn cfg st)) (inertia cfg))
      = Some d0"
    using len fit by (simp add: unat_vec_size d0_def omega_rate_def)
  have d0: "length d0 = length st" "d0 ! 0 = st ! 1" "d0 ! 1 = omega_rate sn cfg st"
    using len fit by (simp_all add: d0_def unat_vec_size)
  show ?thesis
    unfolding compute_derivatives_def
    apply (simp only: Let_def z o Option.bind.bind_lunit torque_loop[OF len fit, unfolded Let_def] s0 s1)
    apply (simp only: mass_loop[OF len fit d0(1), unfolded Let_def] d0 derivative_spec_def)
    done
qed


lemma predict_eq:
  assumes k: "length k = length st" and t: "length temp = length st" and fit: "length st < 2 ^ 64"
  shows "predict st c k (vec_size st) temp = Some (axpy st c k)"
proof -
  let ?body = "\<lambda>i temp. do {
        x \<leftarrow> vec_at st i;
        d \<leftarrow> vec_at k i;
        vec_set temp i (dadd x (dmul c d))
      }"
  let ?I = "\<lambda>j tmp. length tmp = length st \<and> (\<forall>i<j. tmp ! i = dadd (st ! i) (dmul c (k ! i)))"
  have "\<exists>tmp. for_loop 0 (vec_size st) ?body temp = Some tmp \<and> ?I (unat (vec_size st)) tmp"
  proof (rule for_loop_rule)
    show "?I (unat (0 :: size_t)) temp" using t by simp
    show "(0 :: size_t) \<le> vec_size st" by simp
    fix j tmp assume j: "j < unat (vec_size st)" and I: "?I j tmp"
    from j fit have jl: "j < length st" by (simp add: unat_vec_size)
    then have u: "unat (of_nat j :: size_t) = j"
      using fit by (simp add: unat_of_nat)
    have body: "?body (of_nat j) tmp = Some (tmp[j := dadd (st ! j) (dmul c (k ! j))])"
      using jl k I by (simp add: u)
    have "?I (Suc j) (tmp[j := dadd (st ! j) (dmul c (k ! j))])"
      using I jl by (auto simp: less_Suc_eq nth_list_update)
    with body show "\<exists>s'. ?body (of_nat j) tmp = Some s' \<and> ?I (Suc j) s'"
      by blast
  qed
  then obtain tmp where r: "for_loop 0 (vec_size st) ?body temp = Some tmp"
    and I: "?I (length st) tmp"
    using fit by (auto simp: unat_vec_size)
  have "tmp = axpy st c k"
    using I by (intro nth_equalityI) (simp_all add: axpy_def)
  with r show ?thesis by (simp add: predict_def)
qed

lemma combine_loop:
  assumes k: "length k1 = length st" "length k2 = length st" "length k3 = length st"
      "length k4 = length st"
    and fit: "length st < 2 ^ 64"
  shows "for_loop 0 (vec_size st) (\<lambda>i state. do {
        x \<leftarrow> vec_at state i;
        d1 \<leftarrow> vec_at k1 i;
        d2 \<leftarrow> vec_at k2 i;
        d3 \<leftarrow> vec_at k3 i;
        d4 \<leftarrow> vec_at k4 i;
        vec_set state i
          (dadd x (dmul (ddiv dt (dlit 6 1))
             (dadd (dadd (dadd d1 (dmul (dlit 2 1) d2)) (dmul (dlit 2 1) d3)) d4)))
      }) st = Some (rk4_combine st dt k1 k2 k3 k4)"
proof -
  let ?body = "\<lambda>i state. do {
        x \<leftarrow> vec_at state i;
        d1 \<leftarrow> vec_at k1 i;
        d2 \<leftarrow> vec_at k2 i;
        d3 \<leftarrow> vec_at k3 i;
        d4 \<leftarrow> vec_at k4 i;
        vec_set state i
          (dadd x (dmul (ddiv dt (dlit 6 1))
             (dadd (dadd (dadd d1 (dmul (dlit 2 1) d2)) (dmul (dlit 2 1) d3)) d4)))
      }"
  let ?new = "\<lambda>i. dadd (st ! i) (dmul (ddiv dt (dlit 6 1))
            (dadd (dadd (dadd (k1 ! i) (dmul (dlit 2 1) (k2 ! i))) (dmul (dlit 2 1) (k3 ! i))) (k4 ! i)))"
  let ?I = "\<lambda>j s. length s = length st \<and> (\<forall>i<j. s ! i = ?new i)
      \<and> (\<forall>i. j \<le> i \<longrightarrow> i < length st \<longrightarrow> s ! i = st ! i)"
  have "\<exists>s. for_loop 0 (vec_size st) ?body st = Some s \<and> ?I (unat (vec_size st)) s"
  proof (rule for_loop_rule)
    show "?I (unat (0 :: size_t)) st" by simp
    show "(0 :: size_t) \<le> vec_size st" by simp
    fix j s assume j: "j < unat (vec_size st)" and I: "?I j s"
    from j fit have jl: "j < length st" by (simp add: unat_vec_size)
    then have u: "unat (of_nat j :: size_t) = j"
      using fit by (simp add: unat_of_nat)
    have sj: "s ! j = st ! j" using I jl by simp
    have body: "?body (of_nat j) s = Some (s[j := ?new j])"
      using jl k I by (simp add: u sj)
    have "?I (Suc j) (s[j := ?new j])"
      using I jl by (auto simp: less_Suc_eq nth_list_update)
    with body show "\<exists>s'. ?body (of_nat j) s = Some s' \<and> ?I (Suc j) s'"
      by blast
  qed
  then obtain s where r: "for_loop 0 (vec_size st) ?body st = Some s"
    and I: "?I (length st) s"
    using fit by (auto simp: unat_vec_size)
  have "s = rk4_combine st dt k1 k2 k3 k4"
    using I by (intro nth_equalityI) (simp_all add: rk4_combine_def)
  with r show ?thesis by simp
qed

lemma rk4_step_eq:
  assumes len: "length st = unat (n_cups cfg) + 2" and fit: "length st < 2 ^ 64"
  shows "rk4_step sn st dt cfg = Some (rk4_spec sn cfg dt st)"
proof -
  let ?h = "dmul dt (dlit 1 2)"
  let ?f = "derivative_spec sn cfg"
  let ?t0 = "replicate (unat (vec_size st)) dzero"
  let ?k1 = "?f st"
  let ?t1 = "axpy st ?h ?k1"
  let ?k2 = "?f ?t1"
  let ?t2 = "axpy st ?h ?k2"
  let ?k3 = "?f ?t2"
  let ?t3 = "axpy st dt ?k3"
  let ?k4 = "?f ?t3"
  have c1: "compute_derivatives sn st cfg = Some ?k1"
    using len fit by (rule compute_derivatives_eq)
  have p1: "predict st ?h ?k1 (vec_size st) ?t0 = Some ?t1"
    using len fit by (intro predict_eq) (simp_all add: unat_vec_size)
  have c2: "compute_derivatives sn ?t1 cfg = Some ?k2"
    using len fit by (intro compute_derivatives_eq) simp_all
  have p2: "predict st ?h ?k2 (vec_size st) ?t1 = Some ?t2"
    using len fit by (intro predict_eq) simp_all
  have c3: "compute_derivatives sn ?t2 cfg = Some ?k3"
    using len fit by (intro compute_derivatives_eq) simp_all
  have p3: "predict st dt ?k3 (vec_size st) ?t2 = Some ?t3"
    using len fit by (intro predict_eq) simp_all
  have c4: "compute_derivatives sn ?t3 cfg = Some ?k4"
    using len fit by (intro compute_derivatives_eq) simp_all
  have fin: "for_loop 0 (vec_size st) (\<lambda>i state. do {
        x \<leftarrow> vec_at state i;
        d1 \<leftarrow> vec_at ?k1 i;
        d2 \<leftarrow> vec_at ?k2 i;
        d3 \<leftarrow> vec_at ?k3 i;
        d4 \<leftarrow> vec_at ?k4 i;
        vec_set state i
          (dadd x (dmul (ddiv dt (dlit 6 1))
             (dadd (dadd (dadd d1 (dmul (dlit 2 1) d2)) (dmul (dlit 2 1) d3)) d4)))
      }) st = Some (rk4_combine st dt ?k1 ?k2 ?k3 ?k4)"
    using len fit by (intro combine_loop) simp_all
  show ?thesis
    unfolding rk4_step_def
    by (simp only: Let_def c1 p1 c2 p2 c3 p3 c4 fin Option.bind.bind_lunit rk4_spec_def)
qed

section \<open>The derivative function\<close>

text \<open>
  The wrapped angle \<open>phi\<close> of the source is a double: for the smallest negative angle,
  \<open>fmod\<close> returns the angle and \<open>phi + 2 pi\<close> rounds to \<open>2 pi\<close> itself, on the inflow side as
  the exact sum is.
\<close>

lemma wrap_phi_two_pi: "wrap_phi (Fin True 1 (- 1074)) = TWO_PI \<and> in_inflow TWO_PI"
  by code_simp



section \<open>Validation\<close>

lemma validate_config_cases:
  "validate_config cfg = Inr () \<longleftrightarrow> \<not> invalid_configuration cfg"
  by (simp add: validate_config_def invalid_configuration_def)

lemma validate_config_invalid:
  "invalid_configuration cfg \<Longrightarrow> \<exists>msg. validate_config cfg = Inl (Invalid_argument msg)"
  by (auto simp: validate_config_def invalid_configuration_def)

lemma simulate_invalid:
  "validate_config cfg = Inl err \<Longrightarrow> simulate sn cfg = Inl err"
  by (simp add: simulate_def)

lemma simulate_valid:
  "validate_config cfg = Inr () \<Longrightarrow> simulate sn cfg \<noteq> Inl (Invalid_argument msg)"
  by (simp add: simulate_def split: option.splits)

text \<open>
  Claim C2. Validation and \<open>simulate\<close> fail with the invalid-configuration error exactly when
  \<open>n_cups < 1\<close>, \<open>n_frames < 2\<close>, \<open>t_end <= t_start\<close> or \<open>steps_per_frame < 1\<close>
  (\<open>invalid_configuration\<close>; the comparison of the times is the comparison of doubles, false
  on a NaN). Then \<open>simulate\<close> returns the error of validation itself, and nothing else:
  the result of \<open>simulate\<close> is either an error or a complete result. Every other
  configuration passes validation, and \<open>simulate\<close> does not fail with that error on it.
\<close>

theorem invalid_configuration_iff:
  "(invalid_configuration cfg \<longrightarrow>
      (\<exists>msg. validate_config cfg = Inl (Invalid_argument msg)
            \<and> simulate sn cfg = Inl (Invalid_argument msg)))
   \<and> (\<not> invalid_configuration cfg \<longrightarrow>
      validate_config cfg = Inr () \<and> (\<forall>msg. simulate sn cfg \<noteq> Inl (Invalid_argument msg)))"
proof (intro conjI impI)
  assume "invalid_configuration cfg"
  then obtain msg where "validate_config cfg = Inl (Invalid_argument msg)"
    using validate_config_invalid by blast
  then show "\<exists>msg. validate_config cfg = Inl (Invalid_argument msg)
      \<and> simulate sn cfg = Inl (Invalid_argument msg)"
    using simulate_invalid by blast
next
  assume "\<not> invalid_configuration cfg"
  then show "validate_config cfg = Inr ()"
    by (simp add: validate_config_cases)
  then show "\<forall>msg. simulate sn cfg \<noteq> Inl (Invalid_argument msg)"
    using simulate_valid by blast
qed

theorem invalid_configuration_iff_witness:
  "invalid_configuration (make_valid_config\<lparr>n_cups := 0\<rparr>)
   \<and> validate_config (make_valid_config\<lparr>n_cups := 0\<rparr>)
       = Inl (Invalid_argument ''n_cups must be positive'')
   \<and> simulate sin_stub (make_valid_config\<lparr>n_cups := 0\<rparr>)
       = Inl (Invalid_argument ''n_cups must be positive'')
   \<and> \<not> invalid_configuration make_valid_config
   \<and> validate_config make_valid_config = Inr ()
   \<and> simulate sin_stub make_valid_config \<noteq> Inl (Invalid_argument ''n_cups must be positive'')"
proof -
  have bad: "invalid_configuration (make_valid_config\<lparr>n_cups := 0\<rparr>)"
    by (simp add: invalid_configuration_def)
  have msg: "validate_config (make_valid_config\<lparr>n_cups := 0\<rparr>)
       = Inl (Invalid_argument ''n_cups must be positive'')"
    by (simp add: validate_config_def)
  have good: "\<not> invalid_configuration make_valid_config"
    by code_simp
  from invalid_configuration_iff[of "make_valid_config\<lparr>n_cups := 0\<rparr>" sin_stub]
    invalid_configuration_iff[of make_valid_config sin_stub] bad msg good
  show ?thesis by auto
qed

section \<open>The simulation driver\<close>

lemma length_init_spec [simp]: "length (init_spec cfg) = unat (n_cups cfg) + 2"
  by (simp add: init_spec_def)

lemma length_funpow_rk4_spec [simp]:
  "length ((rk4_spec sn cfg dt ^^ j) st) = length st"
  by (induction j) simp_all

lemma length_state_spec [simp]: "length (state_spec sn cfg k) = unat (n_cups cfg) + 2"
  by (simp add: state_spec_def)

lemma initial_state_eq:
  assumes "unat (n_cups cfg) + 2 < 2 ^ 64"
  shows "initial_state cfg = Some (init_spec cfg)"
proof -
  have u: "unat (n_cups cfg + 2) = unat (n_cups cfg) + 2"
    using assms by (simp add: unat_word_ariths)
  show ?thesis
    by (simp add: initial_state_def u init_spec_def)
qed

lemma initial_state_None:
  assumes "\<not> unat (n_cups cfg) + 2 < 2 ^ 64"
  shows "initial_state cfg = None"
proof -
  have "unat (n_cups cfg) < 2 ^ 64"
    using unsigned_less[of "n_cups cfg"] by simp
  with assms have "unat (n_cups cfg) + 2 - 2 ^ 64 < 2" "2 ^ 64 \<le> unat (n_cups cfg) + 2"
    by simp_all
  then have "(unat (n_cups cfg) + 2) mod 2 ^ 64 < 2"
    by (simp add: mod_if)
  then have "unat (n_cups cfg + 2) < 2"
    by (simp add: unat_word_ariths)
  then show ?thesis
    by (simp add: initial_state_def)
qed

lemma run_steps_eq:
  assumes "length st = unat (n_cups cfg) + 2" and "length st < 2 ^ 64"
  shows "run_steps sn cfg dt j st = Some ((rk4_spec sn cfg dt ^^ j) st)"
  using assms
proof (induction j arbitrary: st)
  case 0
  then show ?case by simp
next
  case (Suc j)
  have "rk4_step sn st dt cfg = Some (rk4_spec sn cfg dt st)"
    using Suc.prems by (rule rk4_step_eq)
  moreover have "run_steps sn cfg dt j (rk4_spec sn cfg dt st)
      = Some ((rk4_spec sn cfg dt ^^ j) (rk4_spec sn cfg dt st))"
    using Suc.prems by (intro Suc.IH) simp_all
  ultimately show ?case
    by (simp add: funpow_swap1)
qed

lemma state_at_eq:
  assumes "unat (n_cups cfg) + 2 < 2 ^ 64"
  shows "state_at sn cfg k = Some (state_spec sn cfg k)"
  using assms by (simp add: state_at_def initial_state_eq run_steps_eq state_spec_def)

lemma advance_eq:
  assumes len: "length st = unat (n_cups cfg) + 2" and fit: "length st < 2 ^ 64"
  shows "advance sn cfg dt (st, t)
    = Some ((rk4_spec sn cfg dt ^^ unat (steps_per_frame cfg)) st,
            ((\<lambda>t. dadd t dt) ^^ unat (steps_per_frame cfg)) t)"
proof -
  let ?body = "\<lambda>(step :: size_t) (state, current_time). do {
        state \<leftarrow> rk4_step sn state dt cfg;
        Some (state, dadd current_time dt)
      }"
  let ?I = "\<lambda>j sc. sc = ((rk4_spec sn cfg dt ^^ j) st, ((\<lambda>t. dadd t dt) ^^ j) t)"
  have "\<exists>sc. for_loop 0 (steps_per_frame cfg) ?body (st, t) = Some sc
      \<and> ?I (unat (steps_per_frame cfg)) sc"
  proof (rule for_loop_rule)
    show "?I (unat (0 :: size_t)) (st, t)" by simp
    show "(0 :: size_t) \<le> steps_per_frame cfg" by simp
    fix j sc assume I: "?I j sc"
    have "rk4_step sn ((rk4_spec sn cfg dt ^^ j) st) dt cfg
        = Some (rk4_spec sn cfg dt ((rk4_spec sn cfg dt ^^ j) st))"
      using len fit by (intro rk4_step_eq) simp_all
    then show "\<exists>s'. ?body (of_nat j) sc = Some s' \<and> ?I (Suc j) s'"
      using I by simp
  qed
  then show ?thesis by (simp add: advance_def)
qed

lemma unat_mass_index:
  assumes "c < unat (n_cups cfg)" and "unat frame < unat (n_frames cfg)"
    and "unat (n_cups cfg) * unat (n_frames cfg) < 2 ^ 64"
  shows "unat (of_nat c * n_frames cfg + frame :: size_t) = c * unat (n_frames cfg) + unat frame"
    and "c * unat (n_frames cfg) + unat frame < unat (n_cups cfg) * unat (n_frames cfg)"
proof -
  let ?N = "unat (n_frames cfg)"
  have "c * ?N + unat frame < c * ?N + ?N" using assms by simp
  also have "\<dots> = Suc c * ?N" by simp
  also have "\<dots> \<le> unat (n_cups cfg) * ?N"
    using assms(1) by (intro mult_le_mono1) simp
  finally show lt: "c * ?N + unat frame < unat (n_cups cfg) * ?N" .
  have "unat (n_cups cfg) < 2 ^ 64"
    using unsigned_less[of "n_cups cfg"] by simp
  with assms(1) have c: "c < 2 ^ 64" by simp
  have "c * ?N \<le> c * ?N + unat frame" by simp
  with lt assms(3) have "c * ?N < 2 ^ 64" by linarith
  with c lt assms(3) show "unat (of_nat c * n_frames cfg + frame :: size_t) = c * ?N + unat frame"
    by (simp add: unat_word_ariths unat_of_nat)
qed

lemma record_frame_eq:
  assumes f: "unat frame < unat (n_frames cfg)"
    and len: "length st = unat (n_cups cfg) + 2"
    and fit: "unat (n_cups cfg) * unat (n_frames cfg) < 2 ^ 64" "unat (n_cups cfg) + 2 < 2 ^ 64"
    and r: "length (times r) = unat (n_frames cfg)" "length (theta r) = unat (n_frames cfg)"
      "length (masses r) = unat (n_cups cfg) * unat (n_frames cfg)"
  shows "record_frame cfg frame st t r =
    Some (r\<lparr>times := (times r)[unat frame := t],
            theta := (theta r)[unat frame := st ! 0],
            masses := map (\<lambda>idx. if idx mod unat (n_frames cfg) = unat frame
                                   then st ! (2 + idx div unat (n_frames cfg))
                                   else masses r ! idx)
                        [0..<unat (n_cups cfg) * unat (n_frames cfg)]\<rparr>)"
proof -
  let ?N = "unat (n_frames cfg)" and ?C = "unat (n_cups cfg)" and ?f = "unat frame"
  let ?body = "\<lambda>cup ms. do {
        m \<leftarrow> vec_at st (2 + cup);
        vec_set ms (cup * n_frames cfg + frame) m
      }"
  let ?ms = "\<lambda>c. map (\<lambda>idx. if idx mod ?N = ?f \<and> idx div ?N < c
                                   then st ! (2 + idx div ?N) else masses r ! idx) [0..<?C * ?N]"
  let ?I = "\<lambda>c ms. ms = ?ms c"
  have "\<exists>ms. for_loop 0 (n_cups cfg) ?body (masses r) = Some ms \<and> ?I ?C ms"
  proof (rule for_loop_rule[where I = ?I])
    show "?I (unat (0 :: size_t)) (masses r)"
      using r(3) by (intro nth_equalityI) simp_all
    show "(0 :: size_t) \<le> n_cups cfg" by simp
    fix c ms assume c: "c < ?C" and I: "?I c ms"
    have u: "unat (2 + of_nat c :: size_t) = 2 + c"
      using c fit(2) by (rule unat_two_plus)
    have idx: "unat (of_nat c * n_frames cfg + frame :: size_t) = c * ?N + ?f"
      and lt: "c * ?N + ?f < ?C * ?N"
      using unat_mass_index[OF c f fit(1)] by simp_all
    have body: "?body (of_nat c) ms = Some (ms[c * ?N + ?f := st ! (2 + c)])"
      using c len I lt by (simp add: u idx)
    have "ms[c * ?N + ?f := st ! (2 + c)] = ?ms (Suc c)"
    proof (rule nth_equalityI)
      show "length (ms[c * ?N + ?f := st ! (2 + c)]) = length (?ms (Suc c))"
        using I by simp
      fix i assume "i < length (ms[c * ?N + ?f := st ! (2 + c)])"
      then have i: "i < ?C * ?N" using I by simp
      show "ms[c * ?N + ?f := st ! (2 + c)] ! i = ?ms (Suc c) ! i"
      proof (cases "i = c * ?N + ?f")
        case True
        then show ?thesis using I i f by simp
      next
        case False
        have "\<not> (i mod ?N = ?f \<and> i div ?N = c)"
        proof
          assume "i mod ?N = ?f \<and> i div ?N = c"
          then have "i = c * ?N + ?f"
            using div_mult_mod_eq[of i ?N] by simp
          with False show False by simp
        qed
        then have "(i mod ?N = ?f \<and> i div ?N < Suc c) = (i mod ?N = ?f \<and> i div ?N < c)"
          by (auto simp: less_Suc_eq)
        then show ?thesis using I i False by simp
      qed
    qed
    with body show "\<exists>s'. ?body (of_nat c) ms = Some s' \<and> ?I (Suc c) s'"
      by simp
  qed
  then have loop: "for_loop 0 (n_cups cfg) ?body (masses r) = Some (?ms ?C)"
    by simp
  have full: "?ms ?C = map (\<lambda>idx. if idx mod ?N = ?f then st ! (2 + idx div ?N) else masses r ! idx)
      [0..<?C * ?N]"
  proof (rule map_cong[OF refl])
    fix i assume "i \<in> set [0..<?C * ?N]"
    then have "i < ?C * ?N" by simp
    then have "i div ?N < ?C"
      by (simp add: less_mult_imp_div_less)
    then show "(if i mod ?N = ?f \<and> i div ?N < ?C then st ! (2 + i div ?N) else masses r ! i)
        = (if i mod ?N = ?f then st ! (2 + i div ?N) else masses r ! i)"
      by simp
  qed
  have t: "vec_set (times r) frame t = Some ((times r)[?f := t])"
    using f r by simp
  have z: "vec_at st 0 = Some (st ! 0)"
    using len by simp
  have th: "vec_set (theta r) frame (st ! 0) = Some ((theta r)[?f := st ! 0])"
    using f r by simp
  show ?thesis
    unfolding record_frame_def
    by (simp only: t z th loop full Option.bind.bind_lunit)
qed

lemma state_spec_Suc:
  "state_spec sn cfg (Suc k)
    = (rk4_spec sn cfg (sub_dt_of cfg) ^^ unat (steps_per_frame cfg)) (state_spec sn cfg k)"
  by (simp add: state_spec_def funpow_add)

lemma time_at_Suc:
  "time_at cfg (Suc k)
    = ((\<lambda>t. dadd t (sub_dt_of cfg)) ^^ unat (steps_per_frame cfg)) (time_at cfg k)"
  by (simp add: time_at_def funpow_add)

lemma frame_loop_eq:
  assumes fit: "unat (n_cups cfg) * unat (n_frames cfg) < 2 ^ 64" "unat (n_cups cfg) + 2 < 2 ^ 64"
  shows "unat (n_frames cfg) - unat frame = Suc d \<Longrightarrow>
    length (times r) = unat (n_frames cfg) \<Longrightarrow> length (theta r) = unat (n_frames cfg) \<Longrightarrow>
    length (masses r) = unat (n_cups cfg) * unat (n_frames cfg) \<Longrightarrow>
    frame_loop sn cfg (sub_dt_of cfg) frame
        (state_spec sn cfg (unat frame), time_at cfg (unat frame)) r
    = Some \<lparr>times = map (\<lambda>k. if k < unat frame then times r ! k else time_at cfg k)
                      [0..<unat (n_frames cfg)],
            theta = map (\<lambda>k. if k < unat frame then theta r ! k else state_spec sn cfg k ! 0)
                      [0..<unat (n_frames cfg)],
            masses = map (\<lambda>idx. if idx mod unat (n_frames cfg) < unat frame then masses r ! idx
                          else state_spec sn cfg (idx mod unat (n_frames cfg))
                                 ! (2 + idx div unat (n_frames cfg)))
                      [0..<unat (n_cups cfg) * unat (n_frames cfg)]\<rparr>"
proof (induction d arbitrary: frame r)
  case 0
  let ?N = "unat (n_frames cfg)" and ?C = "unat (n_cups cfg)" and ?f = "unat frame"
  let ?st = "state_spec sn cfg ?f" and ?t = "time_at cfg ?f"
  from "0.prems"(1) have f: "?f < ?N" and last: "Suc ?f = ?N" by simp_all
  have lt: "frame < n_frames cfg" using f by (simp add: word_less_nat_alt)
  have suc: "unat (frame + 1) = Suc ?f" using lt by (rule unat_plus_one)
  have eq: "frame + 1 = n_frames cfg"
    using suc last by (simp add: word_unat_eq_iff)
  have rec: "record_frame cfg frame ?st ?t r =
    Some (r\<lparr>times := (times r)[?f := ?t], theta := (theta r)[?f := ?st ! 0],
            masses := map (\<lambda>idx. if idx mod ?N = ?f then ?st ! (2 + idx div ?N) else masses r ! idx)
                        [0..<?C * ?N]\<rparr>)"
    using f fit "0.prems"(2-4) by (intro record_frame_eq) simp_all
  have only: "i = ?f" if "i < ?N" "\<not> i < ?f" for i
    using that last by linarith
  have 1: "(times r)[?f := ?t] = map (\<lambda>k. if k < ?f then times r ! k else time_at cfg k) [0..<?N]"
    using "0.prems"(2) by (intro nth_equalityI) (auto simp: nth_list_update dest: only)
  have 2: "(theta r)[?f := ?st ! 0]
      = map (\<lambda>k. if k < ?f then theta r ! k else state_spec sn cfg k ! 0) [0..<?N]"
    using "0.prems"(3) by (intro nth_equalityI) (auto simp: nth_list_update dest: only)
  have 3: "map (\<lambda>idx. if idx mod ?N = ?f then ?st ! (2 + idx div ?N) else masses r ! idx) [0..<?C * ?N]
      = map (\<lambda>idx. if idx mod ?N < ?f then masses r ! idx
                    else state_spec sn cfg (idx mod ?N) ! (2 + idx div ?N)) [0..<?C * ?N]"
  proof (rule map_cong[OF refl])
    fix i
    have "i mod ?N < ?N" using f by simp
    then have "i mod ?N < ?f \<or> i mod ?N = ?f" using last by linarith
    then show "(if i mod ?N = ?f then ?st ! (2 + i div ?N) else masses r ! i)
        = (if i mod ?N < ?f then masses r ! i else state_spec sn cfg (i mod ?N) ! (2 + i div ?N))"
      by auto
  qed
  show ?case
    by (subst frame_loop.simps) (simp add: lt rec eq 1 2 3)
next
  case (Suc d)
  let ?N = "unat (n_frames cfg)" and ?C = "unat (n_cups cfg)" and ?f = "unat frame"
  let ?st = "state_spec sn cfg ?f" and ?t = "time_at cfg ?f"
  let ?r1 = "r\<lparr>times := (times r)[?f := ?t], theta := (theta r)[?f := ?st ! 0],
            masses := map (\<lambda>idx. if idx mod ?N = ?f then ?st ! (2 + idx div ?N) else masses r ! idx)
                        [0..<?C * ?N]\<rparr>"
  from Suc.prems(1) have f: "?f < ?N" and more: "Suc ?f < ?N" by simp_all
  have lt: "frame < n_frames cfg" using f by (simp add: word_less_nat_alt)
  have suc: "unat (frame + 1) = Suc ?f" using lt by (rule unat_plus_one)
  have neq: "frame + 1 \<noteq> n_frames cfg"
    using suc more by auto
  have rec: "record_frame cfg frame ?st ?t r = Some ?r1"
    using f fit Suc.prems(2-4) by (intro record_frame_eq) simp_all
  have adv: "advance sn cfg (sub_dt_of cfg) (?st, ?t)
      = Some (state_spec sn cfg (unat (frame + 1)), time_at cfg (unat (frame + 1)))"
    using fit by (simp add: advance_eq suc state_spec_Suc time_at_Suc)
  have IH: "frame_loop sn cfg (sub_dt_of cfg) (frame + 1)
        (state_spec sn cfg (unat (frame + 1)), time_at cfg (unat (frame + 1))) ?r1
    = Some \<lparr>times = map (\<lambda>k. if k < unat (frame + 1) then times ?r1 ! k else time_at cfg k) [0..<?N],
            theta = map (\<lambda>k. if k < unat (frame + 1) then theta ?r1 ! k else state_spec sn cfg k ! 0)
                      [0..<?N],
            masses = map (\<lambda>idx. if idx mod ?N < unat (frame + 1) then masses ?r1 ! idx
                          else state_spec sn cfg (idx mod ?N) ! (2 + idx div ?N))
                      [0..<?C * ?N]\<rparr>"
    using Suc.prems suc by (intro Suc.IH) simp_all
  have 1: "map (\<lambda>k. if k < unat (frame + 1) then times ?r1 ! k else time_at cfg k) [0..<?N]
      = map (\<lambda>k. if k < ?f then times r ! k else time_at cfg k) [0..<?N]"
    using Suc.prems(2) by (intro map_cong[OF refl]) (auto simp: suc nth_list_update less_Suc_eq)
  have 2: "map (\<lambda>k. if k < unat (frame + 1) then theta ?r1 ! k else state_spec sn cfg k ! 0) [0..<?N]
      = map (\<lambda>k. if k < ?f then theta r ! k else state_spec sn cfg k ! 0) [0..<?N]"
    using Suc.prems(3) by (intro map_cong[OF refl]) (auto simp: suc nth_list_update less_Suc_eq)
  have 3: "map (\<lambda>idx. if idx mod ?N < unat (frame + 1) then masses ?r1 ! idx
                          else state_spec sn cfg (idx mod ?N) ! (2 + idx div ?N)) [0..<?C * ?N]
      = map (\<lambda>idx. if idx mod ?N < ?f then masses r ! idx
                    else state_spec sn cfg (idx mod ?N) ! (2 + idx div ?N)) [0..<?C * ?N]"
    by (intro map_cong[OF refl]) (auto simp: suc less_Suc_eq)
  show ?case
    by (subst frame_loop.simps) (simp add: lt rec neq adv IH 1 2 3 del: One_nat_def)
qed

lemma valid_bounds:
  assumes "validate_config cfg = Inr ()"
  shows "1 \<le> unat (n_cups cfg)" and "2 \<le> unat (n_frames cfg)"
    and "1 \<le> unat (steps_per_frame cfg)" and "\<not> dle (t_end cfg) (t_start cfg)"
proof -
  from assms have v: "\<not> n_cups cfg < 1" "\<not> n_frames cfg < 2" "\<not> steps_per_frame cfg < 1"
    "\<not> dle (t_end cfg) (t_start cfg)"
    by (auto simp: validate_config_def split: if_splits)
  from v(1) show "1 \<le> unat (n_cups cfg)" by (simp add: word_less_nat_alt)
  from v(2) show "2 \<le> unat (n_frames cfg)" by (simp add: word_less_nat_alt)
  from v(3) show "1 \<le> unat (steps_per_frame cfg)" by (simp add: word_less_nat_alt)
  from v(4) show "\<not> dle (t_end cfg) (t_start cfg)" .
qed

lemma sizes_fit_state:
  assumes "validate_config cfg = Inr ()" and "sizes_fit cfg"
  shows "unat (n_cups cfg) + 2 < 2 ^ 64"
proof -
  have "unat (n_cups cfg) * 2 \<le> unat (n_cups cfg) * unat (n_frames cfg)"
    using valid_bounds(2)[OF assms(1)] by (intro mult_le_mono2)
  moreover have "unat (n_cups cfg) * unat (n_frames cfg) < 2 ^ 64"
    using assms(2) by (simp add: sizes_fit_def)
  ultimately have "unat (n_cups cfg) * 2 < 2 ^ 64"
    by (rule le_less_trans)
  then show ?thesis by simp
qed

lemma simulate_eq:
  assumes v: "validate_config cfg = Inr ()" and fit: "sizes_fit cfg"
  shows "simulate sn cfg = Inr (simulate_spec sn cfg)"
proof -
  let ?N = "unat (n_frames cfg)" and ?C = "unat (n_cups cfg)"
  have p: "?C * ?N < 2 ^ 64" using fit by (simp add: sizes_fit_def)
  have s: "?C + 2 < 2 ^ 64" using v fit by (rule sizes_fit_state)
  have m: "unat (n_cups cfg * n_frames cfg) = ?C * ?N"
    using p by (simp add: unat_mult_lem[THEN iffD1])
  obtain d where d: "?N - unat (0 :: size_t) = Suc d"
    using valid_bounds(2)[OF v] by (cases ?N) simp_all
  have "frame_loop sn cfg (sub_dt_of cfg) 0
        (state_spec sn cfg (unat (0 :: size_t)), time_at cfg (unat (0 :: size_t))) (initial_result cfg)
      = Some (simulate_spec sn cfg)"
    by (subst frame_loop_eq[OF p s d]) (simp_all add: initial_result_def m simulate_spec_def)
  then have "frame_loop sn cfg (sub_dt_of cfg) 0 (init_spec cfg, t_start cfg) (initial_result cfg)
      = Some (simulate_spec sn cfg)"
    by (simp add: state_spec_def time_at_def)
  then show ?thesis
    using v by (simp add: simulate_def initial_state_eq[OF s])
qed

lemma simulate_spec_lengths [simp]:
  "length (times (simulate_spec sn cfg)) = unat (n_frames cfg)"
  "length (theta (simulate_spec sn cfg)) = unat (n_frames cfg)"
  "length (masses (simulate_spec sn cfg)) = unat (n_cups cfg) * unat (n_frames cfg)"
  by (simp_all add: simulate_spec_def)

lemma simulate_spec_nth:
  "k < unat (n_frames cfg) \<Longrightarrow> times (simulate_spec sn cfg) ! k = time_at cfg k"
  "k < unat (n_frames cfg) \<Longrightarrow> theta (simulate_spec sn cfg) ! k = state_spec sn cfg k ! 0"
  "k < unat (n_frames cfg) \<Longrightarrow> c < unat (n_cups cfg) \<Longrightarrow>
     masses (simulate_spec sn cfg) ! (c * unat (n_frames cfg) + k) = state_spec sn cfg k ! (2 + c)"
proof -
  let ?N = "unat (n_frames cfg)"
  show "k < ?N \<Longrightarrow> times (simulate_spec sn cfg) ! k = time_at cfg k"
    by (simp add: simulate_spec_def)
  show "k < ?N \<Longrightarrow> theta (simulate_spec sn cfg) ! k = state_spec sn cfg k ! 0"
    by (simp add: simulate_spec_def)
  assume k: "k < ?N" and c: "c < unat (n_cups cfg)"
  have "c * ?N + k < c * ?N + ?N" using k by simp
  also have "\<dots> = Suc c * ?N" by simp
  also have "\<dots> \<le> unat (n_cups cfg) * ?N" using c by (intro mult_le_mono1) simp
  finally have "c * ?N + k < unat (n_cups cfg) * ?N" .
  then show "masses (simulate_spec sn cfg) ! (c * ?N + k) = state_spec sn cfg k ! (2 + c)"
    using k by (simp add: simulate_spec_def)
qed

lemma record_frame_SomeD:
  assumes "record_frame cfg frame st t r = Some r'"
  shows "length (masses r') = length (masses r)"
    and "c < unat (n_cups cfg) \<Longrightarrow> unat (of_nat c * n_frames cfg + frame :: size_t) < length (masses r)"
proof -
  let ?body = "\<lambda>cup ms. do {
        m \<leftarrow> vec_at st (2 + cup);
        vec_set ms (cup * n_frames cfg + frame) m
      }"
  let ?I = "\<lambda>j ms. length ms = length (masses r)
      \<and> (\<forall>c<j. unat (of_nat c * n_frames cfg + frame :: size_t) < length (masses r))"
  from assms obtain ms where loop: "for_loop 0 (n_cups cfg) ?body (masses r) = Some ms"
    and r': "masses r' = ms"
    by (auto simp: record_frame_def Option.bind_eq_Some_conv)
  have I: "?I (unat (n_cups cfg)) ms"
  proof (rule for_loop_SomeD[where I = ?I, OF loop])
    show "?I (unat (0 :: size_t)) (masses r)" by simp
    show "(0 :: size_t) \<le> n_cups cfg" by simp
    fix j s u assume I: "?I j s" and b: "?body (of_nat j) s = Some u"
    from b have "unat (of_nat j * n_frames cfg + frame :: size_t) < length s"
      and "length u = length s"
      by (auto simp: Option.bind_eq_Some_conv vec_set_def split: if_splits)
    with I show "?I (Suc j) u"
      by (auto simp: less_Suc_eq)
  qed
  from I r' show "length (masses r') = length (masses r)" by simp
  from I show "c < unat (n_cups cfg) \<Longrightarrow>
      unat (of_nat c * n_frames cfg + frame :: size_t) < length (masses r)"
    by simp
qed

lemma frame_loop_SomeD:
  "frame_loop sn cfg dt frame sc r = Some res \<Longrightarrow> unat frame \<le> f \<Longrightarrow> f < unat (n_frames cfg)
    \<Longrightarrow> c < unat (n_cups cfg)
    \<Longrightarrow> unat (of_nat c * n_frames cfg + of_nat f :: size_t) < length (masses r)"
proof (induction sn cfg dt frame sc r rule: frame_loop.induct)
  case (1 sn cfg sub_dt frame sc result)
  from "1.prems"(2,3) have lt: "frame < n_frames cfg"
    by (simp add: word_less_nat_alt)
  have suc: "unat (frame + 1) = Suc (unat frame)" using lt by (rule unat_plus_one)
  from "1.prems"(1) lt obtain r' where rec: "record_frame cfg frame (fst sc) (snd sc) result = Some r'"
    by (subst (asm) frame_loop.simps) (auto split: option.splits)
  show ?case
  proof (cases "f = unat frame")
    case True
    then have "of_nat f = frame" by simp
    with record_frame_SomeD(2)[OF rec "1.prems"(4)] show ?thesis by simp
  next
    case False
    with "1.prems"(2) have gt: "unat (frame + 1) \<le> f" by (simp add: suc)
    with "1.prems"(3) have neq: "frame + 1 \<noteq> n_frames cfg" by auto
    from "1.prems"(1) lt rec neq obtain sc' where adv: "advance sn cfg sub_dt sc = Some sc'"
      and rest: "frame_loop sn cfg sub_dt (frame + 1) sc' r' = Some res"
      by (subst (asm) frame_loop.simps) (auto split: option.splits)
    have "unat (of_nat c * n_frames cfg + of_nat f :: size_t) < length (masses r')"
      using "1.IH"[OF lt rec neq adv rest gt "1.prems"(3,4)] .
    then show ?thesis
      by (simp add: record_frame_SomeD(1)[OF rec])
  qed
qed

lemma simulate_Inr_valid:
  assumes "simulate sn cfg = Inr res"
  shows "validate_config cfg = Inr ()"
  using assms by (cases "validate_config cfg") (simp_all add: simulate_def)

lemma simulate_Inr_fit:
  assumes "simulate sn cfg = Inr res"
  shows "sizes_fit cfg"
proof (rule ccontr)
  let ?N = "unat (n_frames cfg)" and ?C = "unat (n_cups cfg)"
  let ?L = "unat (n_cups cfg * n_frames cfg)"
  assume "\<not> sizes_fit cfg"
  then have big: "2 ^ 64 \<le> ?C * ?N" by (simp add: sizes_fit_def)
  have v: "validate_config cfg = Inr ()" using assms by (rule simulate_Inr_valid)
  have N: "0 < ?N" using valid_bounds(2)[OF v] by simp
  from assms v obtain st where "initial_state cfg = Some st"
    and loop: "frame_loop sn cfg (sub_dt_of cfg) 0 (st, t_start cfg) (initial_result cfg) = Some res"
    by (auto simp: simulate_def split: option.splits)
  have L: "?L < 2 ^ 64" using unsigned_less[of "n_cups cfg * n_frames cfg"] by simp
  have Lm: "?L = (?C * ?N) mod 2 ^ 64" by (simp add: unat_word_ariths)
  define c where "c = ?L div ?N"
  define f where "f = ?L mod ?N"
  have cf: "c * ?N + f = ?L" by (simp add: c_def f_def)
  have f: "f < ?N" using N by (simp add: f_def)
  have "?L < ?C * ?N" using L big by linarith
  then have c: "c < ?C" by (simp add: c_def less_mult_imp_div_less)
  have "unat (of_nat c * n_frames cfg + of_nat f :: size_t) = (c * ?N + f) mod 2 ^ 64"
    by (simp add: unat_word_ariths unat_of_nat mod_simps)
  also have "\<dots> = ?L" using cf L by simp
  finally have "unat (of_nat c * n_frames cfg + of_nat f :: size_t) = ?L" .
  moreover have "unat (of_nat c * n_frames cfg + of_nat f :: size_t) < length (masses (initial_result cfg))"
    using loop f c by (intro frame_loop_SomeD[OF loop]) simp_all
  ultimately show False by (simp add: initial_result_def)
qed

lemma simulate_Inr_iff:
  "(\<exists>res. simulate sn cfg = Inr res) \<longleftrightarrow> validate_config cfg = Inr () \<and> sizes_fit cfg"
  using simulate_eq simulate_Inr_valid simulate_Inr_fit by blast

lemma simulate_Inr_eq:
  "simulate sn cfg = Inr res \<Longrightarrow> res = simulate_spec sn cfg"
  using simulate_eq[of cfg sn] simulate_Inr_valid simulate_Inr_fit by fastforce

lemma simulate_undefined:
  assumes "validate_config cfg = Inr ()" and "\<not> sizes_fit cfg"
  shows "simulate sn cfg = Inl Undefined_behaviour"
proof (cases "simulate sn cfg")
  case (Inl err)
  with assms(1) show ?thesis
    by (cases err) (simp_all add: simulate_valid)
next
  case (Inr res)
  with assms(2) show ?thesis
    using simulate_Inr_fit by blast
qed

section \<open>Properties of the double arithmetic\<close>

lemma round_ratio_zero [simp]: "round_ratio s 0 q e = Fin s 0 (- 1074)"
  by (simp add: round_ratio_def)

lemma is_finiteE:
  assumes "is_finite x"
  obtains s m e where "x = Fin s m e" "0 \<le> m" "m < 2 ^ 53" "- 1074 \<le> e" "e \<le> 971"
    "m < 2 ^ 52 \<Longrightarrow> e = - 1074"
  using assms by (cases x) auto

lemma is_zeroE:
  assumes "is_zero x"
  obtains s e where "x = Fin s 0 e"
  using assms by (cases x) auto

lemma is_zero_dneg [simp]: "is_zero (dneg x) = is_zero x"
  by (cases x) simp_all

lemma is_zero_dadd: "is_zero x \<Longrightarrow> is_zero y \<Longrightarrow> is_zero (dadd x y)"
  by (elim is_zeroE) simp

lemma is_zero_dsub: "is_zero x \<Longrightarrow> is_zero y \<Longrightarrow> is_zero (dsub x y)"
  by (simp add: dsub_def is_zero_dadd)

lemma dadd_dzero_zero: "is_zero y \<Longrightarrow> dadd dzero y = dzero"
  by (elim is_zeroE) (simp add: dzero_def)

lemma is_zero_dzero [simp]: "is_zero dzero"
  by (simp add: dzero_def)

lemma is_finite_dzero [simp]: "is_finite dzero"
  by (simp add: dzero_def)

lemma is_zero_finite_mul: "is_zero x \<Longrightarrow> is_zero y \<Longrightarrow> is_zero (dmul x y)"
  by (elim is_zeroE) simp

lemma dadd_NaN_right [simp]: "dadd x NaN = NaN"
  by (cases x) simp_all

lemma dmul_NaN_right [simp]: "dmul x NaN = NaN"
  by (cases x) simp_all

lemma ddiv_NaN_right [simp]: "ddiv x NaN = NaN"
  by (cases x) simp_all

lemma round_mant_Fin:
  assumes "e + bitlen m \<le> 1023"
  shows "\<exists>m' e'. round_mant s m e st = Fin s m' e'"
proof -
  have "max (e + bitlen m - 53) (- 1074) \<le> 970"
    using assms by simp
  then show ?thesis
    by (auto simp: round_mant_def Let_def)
qed

lemma int_div_less: "a < c * d \<Longrightarrow> 0 < d \<Longrightarrow> a div d < (c::int)"
proof -
  assume a: "a < c * d" and d: "0 < d"
  have "a div d \<le> (c * d - 1) div d"
    using a d by (intro zdiv_mono1) simp_all
  also have "c * d - 1 = (d - 1) + (c - 1) * d"
    by (simp add: algebra_simps)
  also have "((d - 1) + (c - 1) * d) div d = c - 1"
    using d by simp
  finally show ?thesis by simp
qed

lemma bitlen_div_le:
  assumes "0 < b" and "bitlen b \<le> bitlen a"
  shows "bitlen (a div b) \<le> bitlen a - bitlen b + 1"
proof -
  from assms have a: "0 < a"
    by (metis bitlen_eq_zero_iff bitlen_nonneg dual_order.strict_trans2 linorder_not_less order_le_less)
  have lo: "2 ^ nat (bitlen b - 1) \<le> b" using bitlen_bounds[OF assms(1)] by simp
  have hi: "a < 2 ^ nat (bitlen a)" using bitlen_bounds[OF a] by simp
  have b1: "1 \<le> bitlen b" using assms(1) bitlen_eq_zero_iff[of b] bitlen_nonneg[of b] by linarith
  have "a div b \<le> a div 2 ^ nat (bitlen b - 1)"
    using lo a by (intro zdiv_mono2) simp_all
  also have "\<dots> < 2 ^ nat (bitlen a - bitlen b + 1)"
  proof -
    have "nat (bitlen a) = nat (bitlen a - bitlen b + 1) + nat (bitlen b - 1)"
      using assms(2) b1 by simp
    then have "(2 :: int) ^ nat (bitlen a) = 2 ^ nat (bitlen a - bitlen b + 1) * 2 ^ nat (bitlen b - 1)"
      by (simp add: power_add)
    with hi have "a < 2 ^ nat (bitlen a - bitlen b + 1) * 2 ^ nat (bitlen b - 1)" by simp
    then show ?thesis
      by (intro int_div_less) simp_all
  qed
  finally show ?thesis
    using assms(2) by (simp add: bitlen_le_iff_power)
qed

lemma round_ratio_Fin:
  assumes "0 \<le> p" and "0 < q" and "e + bitlen p - bitlen q + 1 \<le> 1023"
  shows "\<exists>m' e'. round_ratio s p q e = Fin s m' e'"
proof (cases "p = 0")
  case True
  then show ?thesis by simp
next
  case False
  with assms(1) have p: "0 < p" by simp
  define k where "k = nat (max 0 (55 + bitlen q - bitlen p))"
  have bl: "bitlen (p * 2 ^ k) = bitlen p + int k"
    using p by simp
  have kk: "55 + bitlen q - bitlen p \<le> int k" by (simp add: k_def)
  have "bitlen ((p * 2 ^ k) div q) \<le> bitlen (p * 2 ^ k) - bitlen q + 1"
    using assms(2) bl kk by (intro bitlen_div_le) simp_all
  then have "(e - int k) + bitlen ((p * 2 ^ k) div q) \<le> 1023"
    using bl assms(3) by simp
  from round_mant_Fin[OF this] show ?thesis
    using False by (simp add: round_ratio_def Let_def k_def)
qed

lemma is_finE:
  assumes "is_fin x"
  obtains s m e where "x = Fin s m e"
  using assms by (cases x) auto

lemma is_finite_is_fin: "is_finite x \<Longrightarrow> is_fin x"
  by (cases x) simp_all

lemma is_zero_dmul_fin_left: "is_zero x \<Longrightarrow> is_fin y \<Longrightarrow> is_zero (dmul x y)"
  by (elim is_zeroE is_finE) simp

lemma is_zero_dmul_fin_right: "is_fin x \<Longrightarrow> is_zero y \<Longrightarrow> is_zero (dmul x y)"
  by (elim is_zeroE is_finE) simp

lemma dlit_half: "dlit 1 2 = Fin False 4503599627370496 (- 53)"
  by code_simp

lemma dlit_two: "dlit 2 1 = Fin False 4503599627370496 (- 51)"
  by code_simp

lemma dlit_six: "dlit 6 1 = Fin False 6755399441055744 (- 50)"
  by code_simp

lemma bitlen_mantissa:
  assumes "0 \<le> m" and "m < 2 ^ 53"
  shows "bitlen m \<le> 53"
  using assms by (simp add: bitlen_le_iff_power)

lemma round_ratio_is_fin:
  assumes "0 \<le> p" and "0 < q" and "e + bitlen p - bitlen q + 1 \<le> 1023"
  shows "is_fin (round_ratio s p q e)"
  using round_ratio_Fin[OF assms, of s] by auto

lemma half_is_fin:
  assumes "is_finite dt"
  shows "is_fin (dmul dt (dlit 1 2))"
proof -
  from assms obtain s m e where dt: "dt = Fin s m e" and m: "0 \<le> m" "m < 2 ^ 53" and e: "e \<le> 971"
    by (elim is_finiteE)
  have p: "(4503599627370496 :: int) = 2 ^ 52" by simp
  have "bitlen (m * 2 ^ 52) \<le> bitlen m + 52"
  proof (cases "m = 0")
    case True
    then show ?thesis by simp
  next
    case False
    with m(1) have "0 < m" by simp
    from bitlen_pow2[OF this, of 52] show ?thesis by simp
  qed
  moreover have "bitlen m \<le> 53" using m by (rule bitlen_mantissa)
  moreover have "bitlen 1 = 1" by (simp add: bitlen_alt_def)
  ultimately have "(e + - 53) + bitlen (m * 2 ^ 52) - bitlen 1 + 1 \<le> 1023"
    using e by simp
  then have "is_fin (round_ratio (s \<noteq> False) (m * 2 ^ 52) 1 (e + - 53))"
    using m(1) by (intro round_ratio_is_fin) simp_all
  then show ?thesis
    by (simp only: dt dlit_half dmul.simps p)
qed

lemma sixth_is_fin:
  assumes "is_finite dt"
  shows "is_fin (ddiv dt (dlit 6 1))"
proof -
  from assms obtain s m e where dt: "dt = Fin s m e" and m: "0 \<le> m" "m < 2 ^ 53" and e: "e \<le> 971"
    by (elim is_finiteE)
  have b6: "bitlen 6755399441055744 = 53"
    by code_simp
  have "bitlen m \<le> 53" using m by (rule bitlen_mantissa)
  then have "(e - - 50) + bitlen m - bitlen 6755399441055744 + 1 \<le> 1023"
    using e b6 by simp
  then have "is_fin (round_ratio (s \<noteq> False) m 6755399441055744 (e - - 50))"
    using m(1) by (intro round_ratio_is_fin) simp_all
  then show ?thesis
    by (simp add: dt dlit_six)
qed

lemma round_ratio_id:
  assumes "is_finite (Fin s m e)" and "m \<noteq> 0"
  shows "round_ratio s m 1 e = Fin s m e"
proof -
  from assms have m: "0 < m" "m < 2 ^ 53" and e: "- 1074 \<le> e" "e \<le> 971"
    and sub: "m < 2 ^ 52 \<Longrightarrow> e = - 1074"
    by simp_all
  define b where "b = bitlen m"
  have b1: "1 \<le> b" using m(1) bitlen_eq_zero_iff[of m] bitlen_nonneg[of m] by (simp add: b_def)
  have b53: "b \<le> 53" using m by (simp add: b_def bitlen_mantissa)
  define k where "k = nat (56 - b)"
  have k: "int k = 56 - b" "3 \<le> k" using b53 by (simp_all add: k_def)
  have one: "bitlen 1 = 1" by (simp add: bitlen_alt_def)
  have kk: "nat (max 0 (55 + bitlen 1 - bitlen m)) = k"
    using b53 by (simp add: one k_def b_def)
  have bn: "bitlen (m * 2 ^ k) = 56"
    using m(1) k by (simp add: b_def)
  have e': "max (e - int k + bitlen (m * 2 ^ k) - 53) (- 1074) = e"
  proof (cases "m < 2 ^ 52")
    case True
    then have "e = - 1074" by (rule sub)
    then show ?thesis using k bn by simp
  next
    case False
    then have "53 \<le> b"
      by (simp add: b_def bitlen_ge_iff_power)
    with b53 have "b = 53" by simp
    then have "int k = 3" using k by simp
    then show ?thesis using bn e by simp
  qed
  have sh: "nat (e - (e - int k)) = k" by simp
  have half: "(0 :: int) < 2 ^ (k - 1)" by simp
  have "round_mant s (m * 2 ^ k) (e - int k) False = Fin s m e"
    unfolding round_mant_def e' sh Let_def
    using m e half by simp
  then show ?thesis
    using m(1) by (simp add: round_ratio_def kk)
qed

lemma dadd_zero_right:
  assumes "is_finite x" and "\<not> is_zero x" and "is_zero z"
  shows "dadd x z = x"
proof -
  from assms(1) obtain s m e where x: "x = Fin s m e" by (elim is_finiteE)
  from assms(3) obtain t e' where z: "z = Fin t 0 e'" by (elim is_zeroE)
  from assms(2) x have "m \<noteq> 0" by simp
  then show ?thesis
    using round_ratio_id[of s m e] assms(1) by (simp add: x z)
qed

section \<open>Cups without water\<close>

declare add_2_eq_Suc [simp del]

lemma derivative_spec_nth:
  "derivative_spec sn cfg st ! 0 = st ! 1"
  "derivative_spec sn cfg st ! 1 = omega_rate sn cfg st"
  "i < unat (n_cups cfg) \<Longrightarrow> derivative_spec sn cfg st ! (2 + i) = mass_rate cfg st i"
  by (simp_all add: derivative_spec_def)

lemma axpy_nth: "i < length st \<Longrightarrow> axpy st c k ! i = dadd (st ! i) (dmul c (k ! i))"
  by (simp add: axpy_def)

lemma rk4_combine_nth:
  "i < length st \<Longrightarrow> rk4_combine st dt k1 k2 k3 k4 ! i =
     dadd (st ! i) (dmul (ddiv dt (dlit 6 1))
       (dadd (dadd (dadd (k1 ! i) (dmul (dlit 2 1) (k2 ! i))) (dmul (dlit 2 1) (k3 ! i))) (k4 ! i)))"
  by (simp add: rk4_combine_def)

lemma mass_rate_zero:
  assumes "is_zero (inflow_rate cfg)" and "is_zero (leak_rate cfg)" and "is_zero (st ! (2 + i))"
  shows "is_zero (mass_rate cfg st i)"
  using assms by (simp add: mass_rate_def is_zero_dsub is_zero_finite_mul)

lemma is_fin_two [simp]: "is_fin (dlit 2 1)"
  by (simp add: dlit_two)

lemma combine_zero:
  assumes "is_fin c" and "is_zero z1" and "is_zero z2" and "is_zero z3" and "is_zero z4"
  shows "dadd dzero (dmul c (dadd (dadd (dadd z1 (dmul (dlit 2 1) z2)) (dmul (dlit 2 1) z3)) z4)) = dzero"
  using assms by (intro dadd_dzero_zero is_zero_dmul_fin_right is_zero_dadd) simp_all

lemma rk4_spec_masses_zero:
  assumes io: "is_zero (inflow_rate cfg)" "is_zero (leak_rate cfg)"
    and dt: "is_finite dt"
    and len: "length st = unat (n_cups cfg) + 2"
    and z: "\<And>i. i < unat (n_cups cfg) \<Longrightarrow> st ! (2 + i) = dzero"
    and i: "i < unat (n_cups cfg)"
  shows "rk4_spec sn cfg dt st ! (2 + i) = dzero"
proof -
  let ?h = "dmul dt (dlit 1 2)"
  let ?f = "derivative_spec sn cfg"
  let ?t1 = "axpy st ?h (?f st)"
  let ?t2 = "axpy st ?h (?f ?t1)"
  let ?t3 = "axpy st dt (?f ?t2)"
  have h: "is_fin ?h" using dt by (rule half_is_fin)
  have s: "is_fin (ddiv dt (dlit 6 1))" using dt by (rule sixth_is_fin)
  have d: "is_fin dt" using dt by (rule is_finite_is_fin)
  have il: "2 + i < length st" using i len by simp
  have rate: "is_zero (?f u ! (2 + i))" if "u ! (2 + i) = dzero" for u
    using that i io by (simp add: derivative_spec_nth mass_rate_zero)
  have pred: "axpy st c k ! (2 + i) = dzero" if "is_fin c" "is_zero (k ! (2 + i))" for c k
    using that il z[OF i] by (simp add: axpy_nth dadd_dzero_zero is_zero_dmul_fin_right)
  have k1: "is_zero (?f st ! (2 + i))" using z[OF i] by (rule rate)
  have k2: "is_zero (?f ?t1 ! (2 + i))" by (rule rate) (rule pred[OF h k1])
  have k3: "is_zero (?f ?t2 ! (2 + i))" by (rule rate) (rule pred[OF h k2])
  have k4: "is_zero (?f ?t3 ! (2 + i))" by (rule rate) (rule pred[OF d k3])
  show ?thesis
    unfolding rk4_spec_def Let_def
    using il z[OF i] s k1 k2 k3 k4 by (simp add: rk4_combine_nth combine_zero)
qed

lemma funpow_masses_zero:
  assumes io: "is_zero (inflow_rate cfg)" "is_zero (leak_rate cfg)"
    and dt: "is_finite dt"
    and len: "length st = unat (n_cups cfg) + 2"
    and z: "\<And>i. i < unat (n_cups cfg) \<Longrightarrow> st ! (2 + i) = dzero"
    and i: "i < unat (n_cups cfg)"
  shows "(rk4_spec sn cfg dt ^^ j) st ! (2 + i) = dzero"
  using i
proof (induction j arbitrary: i)
  case 0
  then show ?case by (simp add: z)
next
  case (Suc j)
  show ?case
    unfolding funpow.simps comp_def
    using io dt _ _ Suc.prems
  proof (rule rk4_spec_masses_zero)
    show "length ((rk4_spec sn cfg dt ^^ j) st) = unat (n_cups cfg) + 2"
      using len by simp
    fix i' assume "i' < unat (n_cups cfg)"
    then show "(rk4_spec sn cfg dt ^^ j) st ! (2 + i') = dzero"
      by (rule Suc.IH)
  qed
qed

lemma state_spec_masses_zero:
  assumes "is_zero (inflow_rate cfg)" and "is_zero (leak_rate cfg)"
    and "is_finite (sub_dt_of cfg)" and "i < unat (n_cups cfg)"
  shows "state_spec sn cfg k ! (2 + i) = dzero"
  unfolding state_spec_def
  using assms(1-3) _ _ assms(4)
proof (rule funpow_masses_zero)
  show "length (init_spec cfg) = unat (n_cups cfg) + 2" by simp
  fix i' assume "i' < unat (n_cups cfg)"
  then show "init_spec cfg ! (2 + i') = dzero"
    by (simp add: init_spec_def)
qed

lemma dsub_NaN_right [simp]: "dsub x NaN = NaN"
  by (simp add: dsub_def)

lemma mass_rate_NaN: "st ! (2 + i) = NaN \<Longrightarrow> mass_rate cfg st i = NaN"
  by (simp add: mass_rate_def)

lemma dmul_Inf_zero: "is_zero z \<Longrightarrow> dmul (Inf s) z = NaN"
  by (elim is_zeroE) simp

lemma rk4_spec_mass_NaN:
  assumes io: "is_zero (inflow_rate cfg)" "is_zero (leak_rate cfg)"
    and len: "length st = unat (n_cups cfg) + 2"
    and z: "st ! (2 + i) = dzero"
    and i: "i < unat (n_cups cfg)"
  shows "rk4_spec sn cfg (Inf False) st ! (2 + i) = NaN"
proof -
  let ?f = "derivative_spec sn cfg"
  let ?t1 = "axpy st (Inf False) (?f st)"
  have il: "2 + i < length st" using i len by simp
  have "is_zero (?f st ! (2 + i))"
    using i io z by (simp add: derivative_spec_nth mass_rate_zero)
  then have "?t1 ! (2 + i) = NaN"
    using il by (simp add: axpy_nth dmul_Inf_zero)
  then have "?f ?t1 ! (2 + i) = NaN"
    using i by (simp add: derivative_spec_nth mass_rate_NaN)
  then show ?thesis
    unfolding rk4_spec_def Let_def
    using il by (simp add: rk4_combine_nth dlit_half)
qed

lemma overflow_time_config_facts:
  "validate_config overflow_time_config = Inr ()"
  "sizes_fit overflow_time_config"
  "sub_dt_of overflow_time_config = Inf False"
  "unat (n_cups overflow_time_config) = 1"
  "unat (n_frames overflow_time_config) = 2"
  "unat (steps_per_frame overflow_time_config) = 1"
  "is_zero (inflow_rate overflow_time_config)"
  "is_zero (leak_rate overflow_time_config)"
  "is_finite (t_start overflow_time_config)"
  "is_finite (t_end overflow_time_config)"
proof -
  show "validate_config overflow_time_config = Inr ()" by code_simp
  show "sizes_fit overflow_time_config"
    by (simp add: sizes_fit_def overflow_time_config_def)
  show "sub_dt_of overflow_time_config = Inf False" by code_simp
  show "unat (n_cups overflow_time_config) = 1" "unat (n_frames overflow_time_config) = 2"
    "unat (steps_per_frame overflow_time_config) = 1"
    "is_zero (inflow_rate overflow_time_config)" "is_zero (leak_rate overflow_time_config)"
    by (simp_all add: overflow_time_config_def)
  show "is_finite (t_start overflow_time_config)" "is_finite (t_end overflow_time_config)"
    by (simp_all add: overflow_time_config_def)
qed

lemma no_water_config_facts:
  "validate_config no_water_config = Inr ()"
  "sizes_fit no_water_config"
  "is_finite (sub_dt_of no_water_config)"
  "unat (n_cups no_water_config) = 2"
  "unat (n_frames no_water_config) = 5"
  "is_zero (inflow_rate no_water_config)"
  "is_zero (leak_rate no_water_config)"
proof -
  show "validate_config no_water_config = Inr ()" by code_simp
  show "sizes_fit no_water_config"
    by (simp add: sizes_fit_def no_water_config_def make_valid_config_def)
  show "is_finite (sub_dt_of no_water_config)" by code_simp
  show "unat (n_cups no_water_config) = 2" "unat (n_frames no_water_config) = 5"
    "is_zero (inflow_rate no_water_config)" "is_zero (leak_rate no_water_config)"
    by (simp_all add: no_water_config_def make_valid_config_def)
qed

text \<open>
  Claim C6, as amended. When \<open>inflow_rate\<close> and \<open>leak_rate\<close> are zero and the size of a
  sub-step, \<open>((t_end - t_start) / (n_frames - 1)) / steps_per_frame\<close>, is a finite double,
  every entry of the \<open>masses\<close> series returned by \<open>simulate\<close> is \<open>0.0\<close>, whatever the other
  values of the configuration are. (A sub-step that is infinite or a NaN turns the masses
  into NaN at the first sub-step, as the counterexample shows.)
\<close>

theorem masses_stay_zero:
  assumes "simulate sn cfg = Inr res"
    and "is_zero (inflow_rate cfg)" and "is_zero (leak_rate cfg)"
    and "is_finite (sub_dt_of cfg)"
  shows "length (masses res) = unat (n_cups cfg) * unat (n_frames cfg)
    \<and> (\<forall>idx<length (masses res). masses res ! idx = dzero)"
proof -
  let ?N = "unat (n_frames cfg)" and ?C = "unat (n_cups cfg)"
  have res: "res = simulate_spec sn cfg"
    using assms(1) by (rule simulate_Inr_eq)
  have "masses res ! idx = dzero" if "idx < ?C * ?N" for idx
  proof -
    from that have "idx div ?N < ?C"
      by (simp add: less_mult_imp_div_less)
    then have "state_spec sn cfg (idx mod ?N) ! (2 + idx div ?N) = dzero"
      using assms(2-4) by (intro state_spec_masses_zero)
    then show ?thesis
      using that by (simp add: res simulate_spec_def)
  qed
  then show ?thesis by (simp add: res)
qed

theorem masses_stay_zero_witness:
  "simulate sin_stub no_water_config = Inr (simulate_spec sin_stub no_water_config)
   \<and> is_zero (inflow_rate no_water_config) \<and> is_zero (leak_rate no_water_config)
   \<and> is_finite (sub_dt_of no_water_config)
   \<and> length (masses (simulate_spec sin_stub no_water_config)) = 10
   \<and> masses (simulate_spec sin_stub no_water_config) ! 7 = dzero"
proof -
  note f = no_water_config_facts
  have sim: "simulate sin_stub no_water_config = Inr (simulate_spec sin_stub no_water_config)"
    using f(1,2) by (rule simulate_eq)
  from masses_stay_zero[OF sim f(6,7,3)] sim f show ?thesis
    by simp
qed

text \<open>
  The claim as stated fails: all values of this configuration are finite, \<open>inflow_rate\<close> and
  \<open>leak_rate\<close> are zero, validation accepts it, and the mass of the cup at the second frame
  is a NaN, whatever \<open>std::sin\<close> returns.
\<close>

theorem masses_stay_zero_counterexample:
  "\<forall>sn. validate_config overflow_time_config = Inr ()
     \<and> is_zero (inflow_rate overflow_time_config) \<and> is_zero (leak_rate overflow_time_config)
     \<and> is_finite (t_start overflow_time_config) \<and> is_finite (t_end overflow_time_config)
     \<and> (\<exists>res. simulate sn overflow_time_config = Inr res \<and> masses res ! 1 = NaN)"
proof
  fix sn
  let ?cfg = overflow_time_config
  note f = overflow_time_config_facts
  have sim: "simulate sn ?cfg = Inr (simulate_spec sn ?cfg)"
    using f(1,2) by (rule simulate_eq)
  have "masses (simulate_spec sn ?cfg) ! (0 * unat (n_frames ?cfg) + 1) = state_spec sn ?cfg 1 ! (2 + 0)"
    by (rule simulate_spec_nth(3)) (simp_all add: f)
  moreover have "state_spec sn ?cfg 1 = rk4_spec sn ?cfg (Inf False) (init_spec ?cfg)"
    by (simp add: state_spec_def f)
  moreover have "rk4_spec sn ?cfg (Inf False) (init_spec ?cfg) ! (2 + 0) = NaN"
    by (rule rk4_spec_mass_NaN) (simp_all add: f init_spec_def)
  ultimately have "masses (simulate_spec sn ?cfg) ! 1 = NaN" by simp
  with sim f show "validate_config ?cfg = Inr ()
     \<and> is_zero (inflow_rate ?cfg) \<and> is_zero (leak_rate ?cfg)
     \<and> is_finite (t_start ?cfg) \<and> is_finite (t_end ?cfg)
     \<and> (\<exists>res. simulate sn ?cfg = Inr res \<and> masses res ! 1 = NaN)"
    by simp
qed

section \<open>The shape of the result\<close>

lemma make_valid_config_facts:
  "validate_config make_valid_config = Inr ()"
  "sizes_fit make_valid_config"
  "unat (n_cups make_valid_config) = 2"
  "unat (n_frames make_valid_config) = 5"
  "unat (steps_per_frame make_valid_config) = 2"
proof -
  show "validate_config make_valid_config = Inr ()" by code_simp
  show "sizes_fit make_valid_config"
    by (simp add: sizes_fit_def make_valid_config_def)
  show "unat (n_cups make_valid_config) = 2" "unat (n_frames make_valid_config) = 5"
    "unat (steps_per_frame make_valid_config) = 2"
    by (simp_all add: make_valid_config_def)
qed

lemma state_length_invariant:
  assumes "unat (n_cups cfg) + 2 < 2 ^ 64"
  shows "\<exists>st0. initial_state cfg = Some st0
    \<and> (\<forall>j. \<exists>st. run_steps sn cfg dt j st0 = Some st \<and> length st = unat (n_cups cfg) + 2)"
  using assms by (simp add: initial_state_eq run_steps_eq)



text \<open>
  Claim C8. In the result of \<open>simulate\<close>, the mass of cup \<open>c\<close> at frame \<open>k\<close>, which is element
  \<open>2 + c\<close> of the state after \<open>k * steps_per_frame\<close> sub-steps, is stored at index
  \<open>c * n_frames + k\<close> of \<open>masses\<close>: the \<open>n_frames\<close> elements from index \<open>c * n_frames\<close> on are the
  time series of cup \<open>c\<close>, so the series of cup \<open>c\<close> ends where that of cup \<open>c + 1\<close> starts.
\<close>

theorem masses_layout:
  assumes "simulate sn cfg = Inr res" and "c < unat (n_cups cfg)"
  shows "\<exists>sts. length sts = unat (n_frames cfg)
    \<and> (\<forall>k<unat (n_frames cfg). state_at sn cfg k = Some (sts ! k)
          \<and> c * unat (n_frames cfg) + k < length (masses res)
          \<and> masses res ! (c * unat (n_frames cfg) + k) = sts ! k ! (2 + c))
    \<and> take (unat (n_frames cfg)) (drop (c * unat (n_frames cfg)) (masses res))
        = map (\<lambda>st. st ! (2 + c)) sts"
proof -
  let ?N = "unat (n_frames cfg)" and ?C = "unat (n_cups cfg)"
  let ?sts = "map (state_spec sn cfg) [0..<?N]"
  have eq: "res = simulate_spec sn cfg" using assms(1) by (rule simulate_Inr_eq)
  have v: "validate_config cfg = Inr ()" using assms(1) by (rule simulate_Inr_valid)
  have "sizes_fit cfg" using assms(1) by (rule simulate_Inr_fit)
  with v have s: "?C + 2 < 2 ^ 64" by (rule sizes_fit_state)
  have bound: "c * ?N + k < ?C * ?N" if "k < ?N" for k
  proof -
    have "c * ?N + k < Suc c * ?N" using that by simp
    also have "\<dots> \<le> ?C * ?N" using assms(2) by (intro mult_le_mono1) simp
    finally show ?thesis .
  qed
  have nth: "state_at sn cfg k = Some (?sts ! k) \<and> c * ?N + k < length (masses res)
      \<and> masses res ! (c * ?N + k) = ?sts ! k ! (2 + c)" if "k < ?N" for k
    using that bound[OF that] assms(2) s
    by (simp add: eq state_at_eq simulate_spec_nth(3))
  have "take ?N (drop (c * ?N) (masses res)) = map (\<lambda>st. st ! (2 + c)) ?sts"
  proof (rule nth_equalityI)
    have "c * ?N + ?N \<le> ?C * ?N"
      using assms(2) mult_le_mono1[of "Suc c" ?C ?N] by simp
    then show "length (take ?N (drop (c * ?N) (masses res))) = length (map (\<lambda>st. st ! (2 + c)) ?sts)"
      by (simp add: eq)
    fix k assume "k < length (take ?N (drop (c * ?N) (masses res)))"
    then have k: "k < ?N" by simp
    from nth[OF k] k show "take ?N (drop (c * ?N) (masses res)) ! k = map (\<lambda>st. st ! (2 + c)) ?sts ! k"
      by simp
  qed
  with nth show ?thesis
    by (intro exI[of _ ?sts]) simp
qed

theorem masses_layout_witness:
  "simulate sin_stub make_valid_config = Inr (simulate_spec sin_stub make_valid_config)
   \<and> (1 :: nat) < unat (n_cups make_valid_config)
   \<and> (\<exists>sts. length sts = 5
        \<and> take 5 (drop 5 (masses (simulate_spec sin_stub make_valid_config)))
            = map (\<lambda>st. st ! 3) sts)"
proof -
  note f = make_valid_config_facts
  have sim: "simulate sin_stub make_valid_config = Inr (simulate_spec sin_stub make_valid_config)"
    using f(1,2) by (rule simulate_eq)
  have c: "(1 :: nat) < unat (n_cups make_valid_config)" by (simp add: f)
  from masses_layout[OF sim c] obtain sts where "length sts = 5"
    "take 5 (drop 5 (masses (simulate_spec sin_stub make_valid_config))) = map (\<lambda>st. st ! 3) sts"
    by (auto simp: f)
  with sim c show ?thesis by blast
qed



section \<open>Sizes that wrap around\<close>

text \<open>
  Claim C10 fails on the code. \<open>validate_config\<close> accepts \<open>n_cups = 2^64 - 2\<close>; the size of the
  state vector, \<open>n_cups + 2\<close>, wraps around to \<open>0\<close>, and the write \<^verbatim>\<open>state[1] = cfg.omega0\<close> of
  \<open>simulate\<close> is out of the bounds of the empty vector. (For the configurations with
  \<open>sizes_fit\<close>, every access is in bounds: \<open>simulate_Inr_iff\<close>.)
\<close>

theorem state_write_out_of_bounds:
  "validate_config huge_cups_config = Inr ()
   \<and> n_cups huge_cups_config + 2 = 0
   \<and> initial_state huge_cups_config = None
   \<and> simulate sn huge_cups_config = Inl Undefined_behaviour"
proof -
  have v: "validate_config huge_cups_config = Inr ()" by code_simp
  have z: "n_cups huge_cups_config + 2 = 0"
    by (simp add: huge_cups_config_def)
  have i: "initial_state huge_cups_config = None"
    by (simp add: initial_state_def z)
  show ?thesis
    using v z i by (simp add: simulate_def)
qed

section \<open>A sub-step without torque\<close>

lemma rot_state_nth [simp]:
  "rot_state cfg th w ! 0 = th"
  "rot_state cfg th w ! Suc 0 = w"
  "i < unat (n_cups cfg) \<Longrightarrow> rot_state cfg th w ! (2 + i) = dzero"
  by (simp_all add: rot_state_def add_2_eq_Suc)

lemma derivative_spec_nth_Suc_0: "derivative_spec sn cfg st ! Suc 0 = omega_rate sn cfg st"
  by (simp add: derivative_spec_def)

lemma length_rot_state [simp]: "length (rot_state cfg th w) = unat (n_cups cfg) + 2"
  by (simp add: rot_state_def)

lemma rot_state_eqI:
  assumes "length xs = unat (n_cups cfg) + 2" and "xs ! 0 = th" and "xs ! 1 = w"
    and "\<And>i. i < unat (n_cups cfg) \<Longrightarrow> xs ! (2 + i) = dzero"
  shows "xs = rot_state cfg th w"
proof (rule nth_equalityI)
  show "length xs = length (rot_state cfg th w)" using assms(1) by simp
  fix j assume "j < length xs"
  then have j: "j < unat (n_cups cfg) + 2" using assms(1) by simp
  consider "j = 0" | "j = 1" | i where "j = 2 + i" "i < unat (n_cups cfg)"
  proof (cases "j < 2")
    case True
    then have "j = 0 \<or> j = 1" by linarith
    then show ?thesis using that by blast
  next
    case False
    then have "j = 2 + (j - 2)" "j - 2 < unat (n_cups cfg)" using j by simp_all
    then show ?thesis using that by blast
  qed
  then show "xs ! j = rot_state cfg th w ! j"
    using assms(2-4) by cases simp_all
qed

lemma init_spec_rot: "init_spec cfg = rot_state cfg dzero (omega0 cfg)"
  by (simp add: init_spec_def rot_state_def)

lemma foldl_dadd_zero:
  assumes "\<And>x. x \<in> set xs \<Longrightarrow> is_zero (f x)"
  shows "foldl (\<lambda>t x. dadd t (f x)) dzero xs = dzero"
  using assms by (induction xs) (simp_all add: dadd_dzero_zero)

lemma angles_finiteD:
  "angles_finite cfg th \<Longrightarrow> i < unat (n_cups cfg) \<Longrightarrow> is_finite (cup_angle cfg th (of_nat i))"
  by (simp add: angles_finite_def list_all_iff)

lemma net_torque_rot:
  assumes "is_fin (g cfg)" and "is_fin (radius cfg)" and "finite_sine sn"
    and "angles_finite cfg th"
  shows "net_torque sn cfg (rot_state cfg th w) = dzero"
  unfolding net_torque_def
proof (rule foldl_dadd_zero)
  fix i assume "i \<in> set [0..<unat (n_cups cfg)]"
  then have i: "i < unat (n_cups cfg)" by simp
  have "is_finite (sn (cup_angle cfg th (of_nat i)))"
    using assms(3) angles_finiteD[OF assms(4) i] by (simp add: finite_sine_def)
  then have "is_fin (sn (cup_angle cfg th (of_nat i)))" by (rule is_finite_is_fin)
  then show "is_zero (cup_torque sn cfg (rot_state cfg th w) i)"
    using i assms(1,2) by (simp add: cup_torque_def is_zero_dmul_fin_left)
qed

lemma ddiv_zero_by:
  assumes "is_zero z" and "y \<noteq> NaN" and "\<not> is_zero y"
  shows "is_zero (ddiv z y)"
  using assms by (cases y) (auto elim!: is_zeroE)

lemma derivative_rot:
  assumes nt: "no_torque cfg" and sn: "finite_sine sn" and w: "is_fin w"
    and af: "angles_finite cfg th"
  shows "derivative_spec sn cfg (rot_state cfg th w) ! 0 = w"
    and "is_zero (derivative_spec sn cfg (rot_state cfg th w) ! 1)"
    and "i < unat (n_cups cfg) \<Longrightarrow> is_zero (derivative_spec sn cfg (rot_state cfg th w) ! (2 + i))"
proof -
  from nt have z: "is_zero (damping cfg)" "is_zero (leak_rate cfg)" "is_zero (inflow_rate cfg)"
    and gr: "is_fin (g cfg)" "is_fin (radius cfg)"
    and inr: "inertia cfg \<noteq> NaN" "\<not> is_zero (inertia cfg)"
    by (simp_all add: no_torque_def)
  show "derivative_spec sn cfg (rot_state cfg th w) ! 0 = w"
    by (simp add: derivative_spec_nth)
  have "is_zero (dadd (dmul (dneg (damping cfg)) w) dzero)"
    using z(1) w by (intro is_zero_dadd is_zero_dmul_fin_left) simp_all
  then show "is_zero (derivative_spec sn cfg (rot_state cfg th w) ! 1)"
    using inr by (simp add: derivative_spec_nth_Suc_0 omega_rate_def net_torque_rot[OF gr sn af] ddiv_zero_by)
  assume "i < unat (n_cups cfg)"
  then show "is_zero (derivative_spec sn cfg (rot_state cfg th w) ! (2 + i))"
    using z by (simp add: derivative_spec_nth mass_rate_zero)
qed

lemma axpy_rot:
  assumes k: "k ! 0 = w'" "is_zero (k ! 1)" "\<And>i. i < unat (n_cups cfg) \<Longrightarrow> is_zero (k ! (2 + i))"
    and c: "is_fin c" and w: "is_finite w" "\<not> is_zero w"
  shows "axpy (rot_state cfg th w) c k = rot_state cfg (dadd th (dmul c w')) w"
proof (rule rot_state_eqI)
  show "length (axpy (rot_state cfg th w) c k) = unat (n_cups cfg) + 2" by simp
  show "axpy (rot_state cfg th w) c k ! 0 = dadd th (dmul c w')"
    using k(1) by (simp add: axpy_nth)
  show "axpy (rot_state cfg th w) c k ! 1 = w"
    using k(2) c w by (simp add: axpy_nth dadd_zero_right is_zero_dmul_fin_right)
  fix i assume "i < unat (n_cups cfg)"
  then show "axpy (rot_state cfg th w) c k ! (2 + i) = dzero"
    using k(3) c by (simp add: axpy_nth dadd_dzero_zero is_zero_dmul_fin_right)
qed

lemma rk4_rot:
  assumes nt: "no_torque cfg" and sn: "finite_sine sn"
    and w: "is_finite w" "\<not> is_zero w" and dt: "is_finite dt"
    and sa: "stage_angles_finite cfg dt th w"
  shows "rk4_spec sn cfg dt (rot_state cfg th w) = rot_state cfg (dadd th (rot_increment dt w)) w"
proof -
  let ?h = "dmul dt (dlit 1 2)"
  let ?f = "derivative_spec sn cfg"
  let ?st = "rot_state cfg th w"
  let ?th1 = "dadd th (dmul ?h w)" and ?th3 = "dadd th (dmul dt w)"
  have h: "is_fin ?h" using dt by (rule half_is_fin)
  have s: "is_fin (ddiv dt (dlit 6 1))" using dt by (rule sixth_is_fin)
  have d: "is_fin dt" using dt by (rule is_finite_is_fin)
  have wf: "is_fin w" using w(1) by (rule is_finite_is_fin)
  from sa have a0: "angles_finite cfg th" and a1: "angles_finite cfg ?th1"
    and a3: "angles_finite cfg ?th3"
    by (simp_all add: stage_angles_finite_def)
  note k1 = derivative_rot[OF nt sn wf a0]
  have t1: "axpy ?st ?h (?f ?st) = rot_state cfg ?th1 w"
    using k1 h w by (intro axpy_rot)
  note k2 = derivative_rot[OF nt sn wf a1]
  have t2: "axpy ?st ?h (?f (rot_state cfg ?th1 w)) = rot_state cfg ?th1 w"
    using k2 h w by (intro axpy_rot)
  have t3: "axpy ?st dt (?f (rot_state cfg ?th1 w)) = rot_state cfg ?th3 w"
    using k2 d w by (intro axpy_rot)
  note k4 = derivative_rot[OF nt sn wf a3]
  have "rk4_combine ?st dt (?f ?st) (?f (rot_state cfg ?th1 w)) (?f (rot_state cfg ?th1 w))
      (?f (rot_state cfg ?th3 w)) = rot_state cfg (dadd th (rot_increment dt w)) w"
  proof (rule rot_state_eqI)
    show "length (rk4_combine ?st dt (?f ?st) (?f (rot_state cfg ?th1 w))
        (?f (rot_state cfg ?th1 w)) (?f (rot_state cfg ?th3 w))) = unat (n_cups cfg) + 2"
      by simp
    show "rk4_combine ?st dt (?f ?st) (?f (rot_state cfg ?th1 w)) (?f (rot_state cfg ?th1 w))
        (?f (rot_state cfg ?th3 w)) ! 0 = dadd th (rot_increment dt w)"
      by (simp add: rk4_combine_nth k1(1) k2(1) k4(1) rot_increment_def)
    have "is_zero (dmul (ddiv dt (dlit 6 1))
        (dadd (dadd (dadd (?f ?st ! 1) (dmul (dlit 2 1) (?f (rot_state cfg ?th1 w) ! 1)))
           (dmul (dlit 2 1) (?f (rot_state cfg ?th1 w) ! 1))) (?f (rot_state cfg ?th3 w) ! 1)))"
      using s k1(2) k2(2) k4(2) by (intro is_zero_dmul_fin_right is_zero_dadd) simp_all
    then show "rk4_combine ?st dt (?f ?st) (?f (rot_state cfg ?th1 w)) (?f (rot_state cfg ?th1 w))
        (?f (rot_state cfg ?th3 w)) ! 1 = w"
      using w by (simp add: rk4_combine_nth dadd_zero_right)
    fix i assume i: "i < unat (n_cups cfg)"
    then show "rk4_combine ?st dt (?f ?st) (?f (rot_state cfg ?th1 w)) (?f (rot_state cfg ?th1 w))
        (?f (rot_state cfg ?th3 w)) ! (2 + i) = dzero"
      using s k1(3) k2(3) k4(3) by (simp add: rk4_combine_nth combine_zero)
  qed
  then show ?thesis
    by (simp add: rk4_spec_def Let_def t1 t2 t3)
qed

lemma free_rotation_funpow:
  assumes nt: "no_torque cfg" and sn: "finite_sine sn"
    and w: "is_finite (omega0 cfg)" "\<not> is_zero (omega0 cfg)" and dt: "is_finite (sub_dt_of cfg)"
    and fr: "free_run_finite cfg n"
  shows "j \<le> n \<Longrightarrow> (rk4_spec sn cfg (sub_dt_of cfg) ^^ j) (init_spec cfg)
      = rot_state cfg (free_theta cfg j) (omega0 cfg)"
proof (induction j)
  case 0
  then show ?case by (simp add: init_spec_rot free_theta_def)
next
  case (Suc j)
  then have "j < n" by simp
  with fr have "stage_angles_finite cfg (sub_dt_of cfg) (free_theta cfg j) (omega0 cfg)"
    by (simp add: free_run_finite_def list_all_iff)
  from rk4_rot[OF nt sn w dt this] Suc show ?case
    by (simp add: free_theta_def)
qed

section \<open>The time stamps\<close>

lemma finite_sine_stub: "finite_sine sin_stub"
  by (auto simp: finite_sine_def sin_stub_def split: double.splits)

lemma frames_test_config_facts:
  "validate_config frames_test_config = Inr ()"
  "sizes_fit frames_test_config"
  "unat (n_cups frames_test_config) = 1"
  "unat (n_frames frames_test_config) = 3"
  "unat (steps_per_frame frames_test_config) = 5"
  "t_start frames_test_config = dzero"
  "t_end frames_test_config = Fin False 4503599627370496 (- 52)"
proof -
  show "validate_config frames_test_config = Inr ()" by code_simp
  show "sizes_fit frames_test_config"
    by (simp add: sizes_fit_def frames_test_config_def make_valid_config_def)
  show "unat (n_cups frames_test_config) = 1" "unat (n_frames frames_test_config) = 3"
    "unat (steps_per_frame frames_test_config) = 5" "t_start frames_test_config = dzero"
    by (simp_all add: frames_test_config_def make_valid_config_def)
  show "t_end frames_test_config = Fin False 4503599627370496 (- 52)" by code_simp
qed

lemma frames_test_times:
  "time_at frames_test_config 0 = dzero"
  "time_at frames_test_config 1 = Fin False 4503599627370496 (- 53)"
  "time_at frames_test_config 2 = Fin False 9007199254740991 (- 53)"
  by code_simp+

lemma simulate_times:
  assumes "simulate sn cfg = Inr res"
  shows "times res = map (time_at cfg) [0..<unat (n_frames cfg)]"
  using simulate_Inr_eq[OF assms] by (simp add: simulate_spec_def)

lemma time_at_0 [simp]: "time_at cfg 0 = t_start cfg"
  by (simp add: time_at_def)

text \<open>
  Claim C5, as amended. In the result of \<open>simulate\<close>, \<open>times[0]\<close> is \<open>t_start\<close> exactly, and
  \<open>times[k]\<close> is the double reached from \<open>t_start\<close> by \<open>k * steps_per_frame\<close> additions of the
  sub-step size \<open>((t_end - t_start) / (n_frames - 1)) / steps_per_frame\<close>, each addition
  rounded (\<open>time_at\<close>). It is \<open>t_start + k * (t_end - t_start) / (n_frames - 1)\<close> up to that
  rounding only, and \<open>times[n_frames - 1]\<close> need not be \<open>t_end\<close>.
\<close>

theorem times_series:
  assumes "simulate sn cfg = Inr res"
  shows "length (times res) = unat (n_frames cfg) \<and> times res ! 0 = t_start cfg
    \<and> (\<forall>k<unat (n_frames cfg). times res ! k = time_at cfg k)"
proof -
  have "validate_config cfg = Inr ()" using assms by (rule simulate_Inr_valid)
  then have "0 < unat (n_frames cfg)" using valid_bounds(2) by fastforce
  then show ?thesis
    by (simp add: simulate_times[OF assms])
qed

theorem times_series_witness:
  "simulate sin_stub frames_test_config = Inr (simulate_spec sin_stub frames_test_config)
   \<and> length (times (simulate_spec sin_stub frames_test_config)) = 3
   \<and> times (simulate_spec sin_stub frames_test_config) ! 0 = dzero
   \<and> times (simulate_spec sin_stub frames_test_config) ! 1 = Fin False 4503599627370496 (- 53)"
proof -
  note f = frames_test_config_facts
  have sim: "simulate sin_stub frames_test_config = Inr (simulate_spec sin_stub frames_test_config)"
    using f(1,2) by (rule simulate_eq)
  have "times (simulate_spec sin_stub frames_test_config) ! 1 = time_at frames_test_config 1"
    by (rule simulate_spec_nth(1)) (simp add: f)
  then have "times (simulate_spec sin_stub frames_test_config) ! 1 = Fin False 4503599627370496 (- 53)"
    by (simp only: frames_test_times)
  with times_series[OF sim] sim f show ?thesis
    by simp
qed

text \<open>
  The claim as stated fails on the configuration of the test
  \<^verbatim>\<open>ProducesExpectedFramesAndAngles\<close>: ten additions of \<open>0.1\<close> to \<open>0\<close> end at
  \<open>1 - 2^-53 = 0.9999999999999999\<close>, not at \<open>t_end = 1\<close>.
\<close>

theorem times_series_counterexample:
  "\<forall>sn. validate_config frames_test_config = Inr ()
     \<and> t_end frames_test_config = Fin False 4503599627370496 (- 52)
     \<and> (\<exists>res. simulate sn frames_test_config = Inr res
          \<and> times res ! (unat (n_frames frames_test_config) - 1) = Fin False 9007199254740991 (- 53)
          \<and> times res ! (unat (n_frames frames_test_config) - 1) \<noteq> t_end frames_test_config)"
proof
  fix sn
  note f = frames_test_config_facts
  have sim: "simulate sn frames_test_config = Inr (simulate_spec sn frames_test_config)"
    using f(1,2) by (rule simulate_eq)
  have "times (simulate_spec sn frames_test_config) ! 2 = time_at frames_test_config 2"
    by (rule simulate_spec_nth(1)) (simp add: f)
  then have "times (simulate_spec sn frames_test_config) ! 2 = Fin False 9007199254740991 (- 53)"
    by (simp only: frames_test_times)
  with sim f show "validate_config frames_test_config = Inr ()
     \<and> t_end frames_test_config = Fin False 4503599627370496 (- 52)
     \<and> (\<exists>res. simulate sn frames_test_config = Inr res
          \<and> times res ! (unat (n_frames frames_test_config) - 1) = Fin False 9007199254740991 (- 53)
          \<and> times res ! (unat (n_frames frames_test_config) - 1) \<noteq> t_end frames_test_config)"
    by simp
qed

section \<open>The Runge-Kutta step\<close>

lemma one_finite: "is_finite (dlit 1 1)" "\<not> is_zero (dlit 1 1)"
  by code_simp+

lemma rk4_test_config_facts:
  "no_torque rk4_test_config"
  "unat (n_cups rk4_test_config) = 1"
  "is_finite (dlit 1 10)"
  "stage_angles_finite rk4_test_config (dlit 1 10) dzero (dlit 1 1)"
  "dadd dzero (rot_increment (dlit 1 10) (dlit 1 1)) = dlit 1 10"
proof -
  show "no_torque rk4_test_config" by code_simp
  show "unat (n_cups rk4_test_config) = 1"
    by (simp add: rk4_test_config_def make_valid_config_def)
  show "is_finite (dlit 1 10)" by code_simp
  show "stage_angles_finite rk4_test_config (dlit 1 10) dzero (dlit 1 1)" by code_simp
  show "dadd dzero (rot_increment (dlit 1 10) (dlit 1 1)) = dlit 1 10" by code_simp
qed

lemma rk4_test_step:
  assumes "finite_sine sn"
  shows "rk4_step sn [dzero, dlit 1 1, dzero] (dlit 1 10) rk4_test_config
    = Some [dlit 1 10, dlit 1 1, dzero]"
proof -
  note f = rk4_test_config_facts
  have st: "[dzero, dlit 1 1, dzero] = rot_state rk4_test_config dzero (dlit 1 1)"
    by (simp add: rot_state_def f)
  have "rk4_step sn (rot_state rk4_test_config dzero (dlit 1 1)) (dlit 1 10) rk4_test_config
      = Some (rk4_spec sn rk4_test_config (dlit 1 10) (rot_state rk4_test_config dzero (dlit 1 1)))"
    by (rule rk4_step_eq) (simp_all add: f)
  also have "rk4_spec sn rk4_test_config (dlit 1 10) (rot_state rk4_test_config dzero (dlit 1 1))
      = rot_state rk4_test_config (dadd dzero (rot_increment (dlit 1 10) (dlit 1 1))) (dlit 1 1)"
    using f(1) assms one_finite f(3,4) by (rule rk4_rot)
  also have "\<dots> = [dlit 1 10, dlit 1 1, dzero]"
    by (simp add: f rot_state_def)
  finally show ?thesis by (simp only: st)
qed

text \<open>
  Claim C3. For a state vector of \<open>n_cups + 2\<close> elements (the vectors \<open>compute_derivatives\<close>
  accepts) and every step size \<open>dt\<close>, \<open>rk4_step\<close> replaces the state by
  \<open>state + dt/6 * (k1 + 2*k2 + 2*k3 + k4)\<close>, component by component, where
  \<open>k1 = f(state)\<close>, \<open>k2 = f(state + dt/2 * k1)\<close>, \<open>k3 = f(state + dt/2 * k2)\<close>,
  \<open>k4 = f(state + dt * k3)\<close> and \<open>f\<close> is \<open>compute_derivatives\<close> with the configuration
  (\<open>axpy st c k\<close> is \<open>st + c * k\<close>; the source computes \<open>dt/2\<close> as \<open>dt * 0.5\<close>, which is the same
  double). In particular, with the configuration of the unit test (one cup, no damping, no
  inflow, no leak, inertia \<open>1\<close>) and any sine that is finite on finite arguments, one step of
  size \<open>0.1\<close> from \<open>theta = 0\<close>, \<open>omega = 1\<close>, mass \<open>0\<close> gives \<open>theta = 0.1\<close>, \<open>omega = 1.0\<close>,
  mass \<open>0.0\<close>, exactly.
\<close>

theorem rk4_step_formula:
  "(length st = unat (n_cups cfg) + 2 \<and> length st < 2 ^ 64 \<longrightarrow>
      (\<exists>k1 k2 k3 k4 st'.
          compute_derivatives sn st cfg = Some k1
        \<and> compute_derivatives sn (axpy st (dmul dt (dlit 1 2)) k1) cfg = Some k2
        \<and> compute_derivatives sn (axpy st (dmul dt (dlit 1 2)) k2) cfg = Some k3
        \<and> compute_derivatives sn (axpy st dt k3) cfg = Some k4
        \<and> rk4_step sn st dt cfg = Some st' \<and> length st' = length st
        \<and> (\<forall>i<length st. st' ! i =
              dadd (st ! i) (dmul (ddiv dt (dlit 6 1))
                (dadd (dadd (dadd (k1 ! i) (dmul (dlit 2 1) (k2 ! i))) (dmul (dlit 2 1) (k3 ! i)))
                   (k4 ! i))))))
   \<and> (finite_sine sn \<longrightarrow>
         rk4_step sn [dzero, dlit 1 1, dzero] (dlit 1 10) rk4_test_config
           = Some [dlit 1 10, dlit 1 1, dzero])"
proof (intro conjI impI)
  assume a: "length st = unat (n_cups cfg) + 2 \<and> length st < 2 ^ 64"
  let ?h = "dmul dt (dlit 1 2)"
  let ?f = "derivative_spec sn cfg"
  let ?k1 = "?f st"
  let ?k2 = "?f (axpy st ?h ?k1)"
  let ?k3 = "?f (axpy st ?h ?k2)"
  let ?k4 = "?f (axpy st dt ?k3)"
  have c: "compute_derivatives sn u cfg = Some (?f u)" if "length u = length st" for u
    using that a by (intro compute_derivatives_eq) simp_all
  have r: "rk4_step sn st dt cfg = Some (rk4_combine st dt ?k1 ?k2 ?k3 ?k4)"
    using rk4_step_eq[of st cfg sn dt] a by (simp add: rk4_spec_def Let_def)
  have "compute_derivatives sn st cfg = Some ?k1
      \<and> compute_derivatives sn (axpy st ?h ?k1) cfg = Some ?k2
      \<and> compute_derivatives sn (axpy st ?h ?k2) cfg = Some ?k3
      \<and> compute_derivatives sn (axpy st dt ?k3) cfg = Some ?k4
      \<and> rk4_step sn st dt cfg = Some (rk4_combine st dt ?k1 ?k2 ?k3 ?k4)
      \<and> length (rk4_combine st dt ?k1 ?k2 ?k3 ?k4) = length st
      \<and> (\<forall>i<length st. rk4_combine st dt ?k1 ?k2 ?k3 ?k4 ! i =
            dadd (st ! i) (dmul (ddiv dt (dlit 6 1))
              (dadd (dadd (dadd (?k1 ! i) (dmul (dlit 2 1) (?k2 ! i))) (dmul (dlit 2 1) (?k3 ! i)))
                 (?k4 ! i))))"
    using r by (simp add: c rk4_combine_nth)
  then show "\<exists>k1 k2 k3 k4 st'.
        compute_derivatives sn st cfg = Some k1
      \<and> compute_derivatives sn (axpy st (dmul dt (dlit 1 2)) k1) cfg = Some k2
      \<and> compute_derivatives sn (axpy st (dmul dt (dlit 1 2)) k2) cfg = Some k3
      \<and> compute_derivatives sn (axpy st dt k3) cfg = Some k4
      \<and> rk4_step sn st dt cfg = Some st' \<and> length st' = length st
      \<and> (\<forall>i<length st. st' ! i =
            dadd (st ! i) (dmul (ddiv dt (dlit 6 1))
              (dadd (dadd (dadd (k1 ! i) (dmul (dlit 2 1) (k2 ! i))) (dmul (dlit 2 1) (k3 ! i)))
                 (k4 ! i))))"
    by blast
next
  assume "finite_sine sn"
  then show "rk4_step sn [dzero, dlit 1 1, dzero] (dlit 1 10) rk4_test_config
      = Some [dlit 1 10, dlit 1 1, dzero]"
    by (rule rk4_test_step)
qed

theorem rk4_step_formula_witness:
  "length [dzero, dlit 1 1, dzero] = unat (n_cups rk4_test_config) + 2
   \<and> length [dzero, dlit 1 1, dzero] < (2 :: nat) ^ 64
   \<and> finite_sine sin_stub
   \<and> (\<exists>k1. compute_derivatives sin_stub [dzero, dlit 1 1, dzero] rk4_test_config = Some k1)
   \<and> rk4_step sin_stub [dzero, dlit 1 1, dzero] (dlit 1 10) rk4_test_config
       = Some [dlit 1 10, dlit 1 1, dzero]"
proof -
  have h1: "length [dzero, dlit 1 1, dzero] = unat (n_cups rk4_test_config) + 2"
    by (simp add: rk4_test_config_facts)
  have h2: "length [dzero, dlit 1 1, dzero] < (2 :: nat) ^ 64"
    by simp
  from rk4_step_formula[of "[dzero, dlit 1 1, dzero]" rk4_test_config sin_stub "dlit 1 10"]
    h1 h2 finite_sine_stub
  show ?thesis by auto
qed

section \<open>Linear growth of the angle\<close>

lemma free_wheel_config_facts:
  "validate_config free_wheel_config = Inr ()"
  "sizes_fit free_wheel_config"
  "unat (n_cups free_wheel_config) = 1"
  "unat (n_frames free_wheel_config) = 3"
  "unat (steps_per_frame free_wheel_config) = 5"
  "no_torque free_wheel_config"
  "is_finite (omega0 free_wheel_config)"
  "\<not> is_zero (omega0 free_wheel_config)"
  "is_finite (sub_dt_of free_wheel_config)"
proof -
  show "validate_config free_wheel_config = Inr ()" by code_simp
  show "sizes_fit free_wheel_config"
    by (simp add: sizes_fit_def free_wheel_config_def frames_test_config_def make_valid_config_def)
  show "unat (n_cups free_wheel_config) = 1" "unat (n_frames free_wheel_config) = 3"
    "unat (steps_per_frame free_wheel_config) = 5"
    by (simp_all add: free_wheel_config_def frames_test_config_def make_valid_config_def)
  show "no_torque free_wheel_config" by code_simp
  show "is_finite (omega0 free_wheel_config)" by code_simp
  show "\<not> is_zero (omega0 free_wheel_config)" by code_simp
  show "is_finite (sub_dt_of free_wheel_config)" by code_simp
qed

lemma free_wheel_run: "free_run_finite free_wheel_config 10"
  by code_simp

lemma free_wheel_theta:
  "free_theta free_wheel_config 0 = dzero"
  "free_theta free_wheel_config 5 = dlit 1 2"
  "free_theta free_wheel_config 10 = Fin False 9007199254740991 (- 53)"
  by code_simp+

lemma free_wheel_times:
  "time_at free_wheel_config 0 = dzero"
  "time_at free_wheel_config 1 = dlit 1 2"
  "time_at free_wheel_config 2 = Fin False 9007199254740991 (- 53)"
  by code_simp+

lemma free_rotation_state:
  assumes nt: "no_torque cfg" and sn: "finite_sine sn"
    and w: "is_finite (omega0 cfg)" "\<not> is_zero (omega0 cfg)" and dt: "is_finite (sub_dt_of cfg)"
    and fr: "free_run_finite cfg ((unat (n_frames cfg) - 1) * unat (steps_per_frame cfg))"
    and k: "k < unat (n_frames cfg)"
  shows "state_spec sn cfg k
    = rot_state cfg (free_theta cfg (k * unat (steps_per_frame cfg))) (omega0 cfg)"
proof -
  from k have "k \<le> unat (n_frames cfg) - 1" by simp
  then have "k * unat (steps_per_frame cfg)
      \<le> (unat (n_frames cfg) - 1) * unat (steps_per_frame cfg)"
    by (rule mult_le_mono1)
  from free_rotation_funpow[OF nt sn w dt fr this] show ?thesis
    by (simp add: state_spec_def)
qed

lemma free_rotation_result:
  assumes sim: "simulate sn cfg = Inr res"
    and nt: "no_torque cfg" and sn: "finite_sine sn"
    and w: "is_finite (omega0 cfg)" "\<not> is_zero (omega0 cfg)" and dt: "is_finite (sub_dt_of cfg)"
    and fr: "free_run_finite cfg ((unat (n_frames cfg) - 1) * unat (steps_per_frame cfg))"
    and k: "k < unat (n_frames cfg)"
  shows "theta res ! k = free_theta cfg (k * unat (steps_per_frame cfg))"
    and "state_at sn cfg k
      = Some (rot_state cfg (free_theta cfg (k * unat (steps_per_frame cfg))) (omega0 cfg))"
proof -
  have eq: "res = simulate_spec sn cfg" using sim by (rule simulate_Inr_eq)
  have v: "validate_config cfg = Inr ()" using sim by (rule simulate_Inr_valid)
  have "sizes_fit cfg" using sim by (rule simulate_Inr_fit)
  with v have s: "unat (n_cups cfg) + 2 < 2 ^ 64" by (rule sizes_fit_state)
  note st = free_rotation_state[OF nt sn w dt fr k]
  show "theta res ! k = free_theta cfg (k * unat (steps_per_frame cfg))"
    using k by (simp add: eq simulate_spec_nth(2) st)
  show "state_at sn cfg k
      = Some (rot_state cfg (free_theta cfg (k * unat (steps_per_frame cfg))) (omega0 cfg))"
    by (simp add: state_at_eq[OF s] st)
qed

lemma free_wheel_result:
  assumes "finite_sine sn"
  shows "simulate sn free_wheel_config =
    Inr \<lparr>times = [dzero, dlit 1 2, Fin False 9007199254740991 (- 53)],
          theta = [dzero, dlit 1 2, Fin False 9007199254740991 (- 53)],
          masses = [dzero, dzero, dzero]\<rparr>"
proof -
  note f = free_wheel_config_facts
  have fr: "free_run_finite free_wheel_config
      ((unat (n_frames free_wheel_config) - 1) * unat (steps_per_frame free_wheel_config))"
    using free_wheel_run by (simp add: f)
  have st: "state_spec sn free_wheel_config k
      = rot_state free_wheel_config (free_theta free_wheel_config (k * 5)) (omega0 free_wheel_config)"
    if "k < 3" for k
    using free_rotation_state[OF f(6) assms f(7,8,9) fr, of k] that by (simp add: f)
  have up3: "[0..<3] = [0, 1, 2 :: nat]" by (simp add: upt_rec)
  have m: "rot_state free_wheel_config th w ! (2 + 0) = dzero" for th w
    by (rule rot_state_nth(3)) (simp add: f)
  have t: "times (simulate_spec sn free_wheel_config)
      = [time_at free_wheel_config 0, time_at free_wheel_config 1, time_at free_wheel_config 2]"
    by (simp add: simulate_spec_def f up3)
  have th: "theta (simulate_spec sn free_wheel_config)
      = [free_theta free_wheel_config 0, free_theta free_wheel_config 5,
         free_theta free_wheel_config 10]"
    using st[of 0] st[of 1] st[of 2] by (simp add: simulate_spec_def f up3)
  have ms: "masses (simulate_spec sn free_wheel_config) = [dzero, dzero, dzero]"
    using st[of 0] st[of 1] st[of 2] m by (simp add: simulate_spec_def f up3)
  have "simulate_spec sn free_wheel_config =
    \<lparr>times = [dzero, dlit 1 2, Fin False 9007199254740991 (- 53)],
     theta = [dzero, dlit 1 2, Fin False 9007199254740991 (- 53)],
     masses = [dzero, dzero, dzero]\<rparr>"
    using t th ms by (simp only: free_wheel_times free_wheel_theta) simp
  then show ?thesis
    using simulate_eq[OF f(1,2), of sn] by simp
qed

lemma free_wheel_linear:
  "map (\<lambda>t. dmul (omega0 free_wheel_config) (dsub t (t_start free_wheel_config)))
     [dzero, dlit 1 2, Fin False 9007199254740991 (- 53)]
   = [dzero, dlit 1 2, Fin False 9007199254740991 (- 53)]"
  by code_simp



text \<open>
  The claim as stated fails when the inertia is zero, which validation accepts: the
  angular acceleration is \<open>0 / 0\<close>, a NaN, and so is \<open>theta\<close> from the second frame on,
  whatever \<open>std::sin\<close> returns, while \<open>omega0 * (times[1] - t_start)\<close> is \<open>1\<close>.
\<close>

lemma torque_zero_or_NaN:
  assumes "is_zero z"
  shows "dadd dzero (dmul z y) = dzero \<or> dadd dzero (dmul z y) = NaN"
  using assms by (cases y) (auto elim!: is_zeroE simp: dzero_def)

lemma ddiv_by_zero_NaN:
  assumes "is_zero a" and "is_zero c" and "t = dzero \<or> t = NaN"
  shows "ddiv (dadd a t) c = NaN"
  using assms by (auto elim!: is_zeroE simp: dzero_def)

lemma rk4_theta_NaN:
  assumes "derivative_spec sn cfg st ! Suc 0 = NaN" and "length st = unat (n_cups cfg) + 2"
  shows "rk4_spec sn cfg dt st ! 0 = NaN"
proof -
  let ?h = "dmul dt (dlit 1 2)"
  let ?f = "derivative_spec sn cfg"
  have l: "0 < length st" "Suc 0 < length st" using assms(2) by simp_all
  have "axpy st ?h (?f st) ! Suc 0 = NaN"
    using l assms(1) by (simp add: axpy_nth)
  then have "?f (axpy st ?h (?f st)) ! 0 = NaN"
    by (simp add: derivative_spec_def)
  then show ?thesis
    using l by (simp add: rk4_spec_def Let_def rk4_combine_nth)
qed

lemma zero_inertia_config_facts:
  "validate_config zero_inertia_config = Inr ()"
  "sizes_fit zero_inertia_config"
  "unat (n_cups zero_inertia_config) = 1"
  "unat (n_frames zero_inertia_config) = 2"
  "unat (steps_per_frame zero_inertia_config) = 1"
  "is_zero (damping zero_inertia_config)"
  "is_zero (leak_rate zero_inertia_config)"
  "is_zero (inflow_rate zero_inertia_config)"
  "is_zero (g zero_inertia_config)"
  "is_zero (inertia zero_inertia_config)"
  "is_finite (omega0 zero_inertia_config)"
  "\<not> is_zero (omega0 zero_inertia_config)"
  "is_fin (radius zero_inertia_config)"
  "dmul (omega0 zero_inertia_config)
     (dsub (time_at zero_inertia_config 1) (t_start zero_inertia_config)) = dlit 1 1"
proof -
  show "validate_config zero_inertia_config = Inr ()" by code_simp
  show "sizes_fit zero_inertia_config"
    by (simp add: sizes_fit_def zero_inertia_config_def frames_test_config_def make_valid_config_def)
  show "unat (n_cups zero_inertia_config) = 1" "unat (n_frames zero_inertia_config) = 2"
    "unat (steps_per_frame zero_inertia_config) = 1"
    "is_zero (damping zero_inertia_config)" "is_zero (leak_rate zero_inertia_config)"
    "is_zero (inflow_rate zero_inertia_config)" "is_zero (g zero_inertia_config)"
    "is_zero (inertia zero_inertia_config)"
    by (simp_all add: zero_inertia_config_def frames_test_config_def make_valid_config_def)
  show "is_finite (omega0 zero_inertia_config)" by code_simp
  show "\<not> is_zero (omega0 zero_inertia_config)" by code_simp
  show "is_fin (radius zero_inertia_config)" by code_simp
  show "dmul (omega0 zero_inertia_config)
     (dsub (time_at zero_inertia_config 1) (t_start zero_inertia_config)) = dlit 1 1"
    by code_simp
qed

lemma zero_inertia_omega_rate:
  "derivative_spec sn zero_inertia_config (init_spec zero_inertia_config) ! Suc 0 = NaN"
proof -
  note f = zero_inertia_config_facts
  let ?cfg = zero_inertia_config
  let ?st = "init_spec ?cfg"
  have "?st ! (2 + 0) = dzero"
    unfolding init_spec_rot by (rule rot_state_nth(3)) (simp add: f)
  then have m: "?st ! 2 = dzero" by simp
  have w: "is_fin (?st ! 1)"
    using f(11) by (simp add: init_spec_rot is_finite_is_fin)
  have "is_zero (dmul (dmul (?st ! 2) (g ?cfg)) (radius ?cfg))"
    using f(9,13) by (simp only: m) (intro is_zero_dmul_fin_left is_zero_finite_mul, simp_all)
  then have t: "net_torque sn ?cfg ?st = dzero \<or> net_torque sn ?cfg ?st = NaN"
    by (simp add: net_torque_def f cup_torque_def torque_zero_or_NaN)
  have "is_zero (dmul (dneg (damping ?cfg)) (?st ! 1))"
    using f(6) w by (intro is_zero_dmul_fin_left) simp_all
  then have "omega_rate sn ?cfg ?st = NaN"
    unfolding omega_rate_def using f(10) t by (rule ddiv_by_zero_NaN)
  then show ?thesis
    by (simp add: derivative_spec_nth_Suc_0)
qed


end
